theory Spec2Isabelle
  imports Complex_Main
begin

section \<open>Data model of \<open>src/deep-research.ts\<close> and of the tool module\<close>

text \<open>
  Every promise of the source is a value of \<open>error + 'a\<close>: \<open>Inl\<close> is a rejection (a thrown
  exception), \<open>Inr\<close> a fulfilment. The three constructors name the three places an
  exception can come from: the oracle (\<open>generateObject\<close>), a tool's \<open>execute\<close>, and the
  \<open>TypeError\<close> of reading \<open>tool.name\<close> when the catalogue has no entry for the chosen name.
\<close>

datatype error = OracleFailure string | ToolFailure string | UndefinedTool

text \<open>\<open>Source\<close> and \<open>AgentResponse\<close>: the fields that \<open>processAgentResponse\<close> reads.\<close>

record Source =
  file_name :: string
  file_path :: string

record AgentResponse =
  content :: string
  source :: "Source list option"
  compliance_score :: "string option"

text \<open>A registered tool: its description (used in the prompts) and its \<open>execute\<close>.\<close>

record Tool =
  description :: string
  execute :: "string \<Rightarrow> error + AgentResponse"

text \<open>The two structured answers of the oracle.\<close>

record ToolChoice =
  toolName :: string
  reason :: string

record FollowUp =
  question :: string
  rationale :: string

record ResearchProgress =
  currentDepth :: int
  totalDepth :: int
  currentBreadth :: int
  totalBreadth :: int
  currentQuery :: "string option"
  totalQueries :: nat
  completedQueries :: nat

text \<open>\<open>compliance_scores\<close> is an optional field: \<open>None\<close> is JavaScript's \<open>undefined\<close>.\<close>

record ResearchResult =
  learnings :: "string list"
  sources :: "string list"
  compliance_scores :: "string list option"

text \<open>
  The collaborators of the engine, as parameters: the catalogue \<open>researchTools\<close> (an
  object indexed by name), and the two oracle calls as functions of what the code puts
  into their prompts. \<open>classify\<close> is the \<open>generateObject\<close> call of
  \<open>determineResearchTool\<close>, \<open>expand\<close> the one of \<open>generateFollowUpQuestions\<close> (query, tool
  description, \<open>numQuestions\<close>, previous learnings). An oracle or a tool that is asked
  the same thing twice answers the same; every statement below is for an arbitrary
  such environment. \<open>breadth\<close> and \<open>depth\<close> are integers of either sign.
\<close>

record Env =
  researchTools :: "string \<rightharpoonup> Tool"
  classify :: "string \<Rightarrow> error + ToolChoice"
  expand :: "string \<Rightarrow> string \<Rightarrow> int \<Rightarrow> string list \<Rightarrow> error + FollowUp list"

section \<open>The helpers of \<open>deepResearch\<close>\<close>

text \<open>
  \<open>Array.prototype.slice(0, n)\<close> for an integer \<open>n\<close>: a negative end counts from the end
  of the array.
\<close>

definition slice0 :: "int \<Rightarrow> 'a list \<Rightarrow> 'a list" where
  "slice0 n xs = (if 0 \<le> n then take (nat n) xs else take (nat (int (length xs) + n)) xs)"

text \<open>
  \<open>determineResearchTool\<close> awaits the oracle and indexes the catalogue with the name it
  chose; an unknown name gives \<open>tool: undefined\<close> and no exception yet.
\<close>

definition determineResearchTool :: "Env \<Rightarrow> string \<Rightarrow> error + (Tool option \<times> string)" where
  "determineResearchTool env query =
     (case classify env query of
        Inl e \<Rightarrow> Inl e
      | Inr res \<Rightarrow> Inr (researchTools env (toolName res), reason res))"

definition generateFollowUpQuestions ::
  "Env \<Rightarrow> string \<Rightarrow> string \<Rightarrow> int \<Rightarrow> string list \<Rightarrow> error + FollowUp list" where
  "generateFollowUpQuestions env query toolDescription numQuestions previousLearnings =
     (case expand env query toolDescription numQuestions previousLearnings of
        Inl e \<Rightarrow> Inl e
      | Inr questions \<Rightarrow> Inr (slice0 numQuestions questions))"

text \<open>The template \<^verbatim>\<open>`${s.file_name} (${s.file_path})`\<close>.\<close>

definition formatSource :: "Source \<Rightarrow> string" where
  "formatSource s = file_name s @ '' ('' @ file_path s @ '')''"

text \<open>
  \<open>processAgentResponse\<close> returns the triple \<open>(learnings, sources, compliance_score)\<close>;
  \<open>response.source?.map(...) || []\<close> is the empty array exactly when \<open>source\<close> is absent
  (an array, even an empty one, is truthy).
\<close>

definition processAgentResponse ::
  "AgentResponse \<Rightarrow> string list \<times> string list \<times> string option" where
  "processAgentResponse response =
     ([content response],
      (case source response of None \<Rightarrow> [] | Some ss \<Rightarrow> map formatSource ss),
      compliance_score response)"

text \<open>\<open>Math.ceil(breadth / 2)\<close> on an integer, in integer arithmetic.\<close>

definition ceilHalf :: "int \<Rightarrow> int" where
  "ceilHalf breadth = - ((- breadth) div 2)"

text \<open>The query of the recursive call (\<open>0x0A\<close> is the \<^verbatim>\<open>\n\<close> of the template).\<close>

definition followUpQuery :: "AgentResponse \<Rightarrow> FollowUp \<Rightarrow> string" where
  "followUpQuery response questionObj =
     ''Following up on: '' @ content response @ [CHR 0x0A] @ ''Context: '' @ rationale questionObj"

text \<open>The \<open>progress\<close> object that every call of \<open>deepResearch\<close> creates for itself.\<close>

definition initialProgress :: "int \<Rightarrow> int \<Rightarrow> ResearchProgress" where
  "initialProgress breadth depth =
     \<lparr> currentDepth = depth, totalDepth = depth,
       currentBreadth = breadth, totalBreadth = breadth,
       currentQuery = None, totalQueries = 0, completedQueries = 0 \<rparr>"

text \<open>
  \<open>reportProgress\<close> assigns the update to the call's \<open>progress\<close> object and hands the
  object to \<open>onProgress\<close>. The model returns the updated object and the list of snapshots
  the observer has been handed by this step (the observer is taken as present; it only
  records what it is given).
\<close>

definition reportProgress ::
  "(ResearchProgress \<Rightarrow> ResearchProgress) \<Rightarrow> ResearchProgress \<Rightarrow>
   ResearchProgress \<times> ResearchProgress list" where
  "reportProgress update progress = (update progress, [update progress])"

text \<open>
  \<open>Array.from(new Set(xs))\<close>: a \<open>Set\<close> keeps its members in insertion order and \<open>add\<close>
  leaves a set that already has the value as it is.
\<close>

definition setAdd :: "'a list \<Rightarrow> 'a \<Rightarrow> 'a list" where
  "setAdd s x = (if x \<in> set s then s else s @ [x])"

definition arrayFromSet :: "'a list \<Rightarrow> 'a list" where
  "arrayFromSet xs = foldl setAdd [] xs"

text \<open>
  The aggregation at the end of \<open>deepResearch\<close> (\<open>results.flat()\<close> leaves an array of
  objects as it is; \<open>r.compliance_scores || []\<close> reads an absent field as \<open>[]\<close>).
\<close>

definition combineResults :: "ResearchResult list \<Rightarrow> ResearchResult" where
  "combineResults flatResults =
     \<lparr> learnings = arrayFromSet (concat (map learnings flatResults)),
       sources = arrayFromSet (concat (map sources flatResults)),
       compliance_scores =
         Some (concat (map (\<lambda>r. case compliance_scores r of None \<Rightarrow> [] | Some cs \<Rightarrow> cs)
                           flatResults)) \<rparr>"

text \<open>
  \<open>Promise.all\<close>: the values in the order of the promises, or a rejection when one of
  them rejects. Which rejection wins depends on timing in the source; the model takes
  the first in array order, and no statement below depends on which error it is.
\<close>

fun promiseAll :: "(error + 'a) list \<Rightarrow> error + 'a list" where
  "promiseAll [] = Inr []"
| "promiseAll (Inl e # ps) = Inl e"
| "promiseAll (Inr v # ps) = (case promiseAll ps of Inl e \<Rightarrow> Inl e | Inr vs \<Rightarrow> Inr (v # vs))"

text \<open>
  The fan-out \<open>followUpQuestions.map(q => limit(async () => ...))\<close>. Each branch reads
  and writes the \<open>progress\<close> object of its node, so the object is threaded through the
  branches; a branch returns the object, the snapshots it has shown the observer, and its
  outcome. The branches are run one after the other in array order: the limiter and the
  event loop decide the real interleaving, which the values of the branches do not depend
  on (a branch reads nothing that another branch writes, apart from \<open>progress\<close>).
\<close>

fun fanOut ::
  "(ResearchProgress \<Rightarrow> 'q \<Rightarrow> ResearchProgress \<times> ResearchProgress list \<times> 'r) \<Rightarrow>
   ResearchProgress \<Rightarrow> 'q list \<Rightarrow> ResearchProgress list \<times> 'r list" where
  "fanOut f progress [] = ([], [])"
| "fanOut f progress (q # qs) =
     (case f progress q of (progress', seen, r) \<Rightarrow>
        (case fanOut f progress' qs of (seen', rs) \<Rightarrow> (seen @ seen', r # rs)))"

lemma fanOut_cong [fundef_cong]:
  "qs = qs' \<Longrightarrow> p = p' \<Longrightarrow> (\<And>s q. q \<in> set qs' \<Longrightarrow> f s q = g s q) \<Longrightarrow>
   fanOut f p qs = fanOut g p' qs'"
  by (induction qs' arbitrary: p p' qs) (auto split: prod.splits)

section \<open>\<open>deepResearch\<close>\<close>

text \<open>
  \<open>deepResearch env query breadth depth learnings0 sources0\<close> returns the snapshots handed
  to \<open>onProgress\<close> during the call, in order, and the outcome of the returned promise.
  (\<open>learnings0\<close> and \<open>sources0\<close> are the parameters \<open>learnings\<close> and \<open>sources\<close>.)
  \<open>researchBranch\<close> is the body of the closure given to \<open>limit\<close> for one follow-up
  question. Its \<open>try\<close> covers the awaited \<open>tool.execute\<close>; the promise of the recursive
  call is returned without being awaited, so a rejection of it is the branch's outcome
  and not caught. The leaf result's \<open>compliance_scores\<close> follows the truthiness test
  \<open>compliance_score ? [compliance_score] : undefined\<close>: an absent score and the empty
  string both give \<open>undefined\<close>.
\<close>

function (sequential)
  deepResearch ::
    "Env \<Rightarrow> string \<Rightarrow> int \<Rightarrow> int \<Rightarrow> string list \<Rightarrow> string list \<Rightarrow>
     ResearchProgress list \<times> (error + ResearchResult)"
and researchBranch ::
    "Env \<Rightarrow> Tool \<Rightarrow> int \<Rightarrow> int \<Rightarrow> string list \<Rightarrow> string list \<Rightarrow>
     ResearchProgress \<Rightarrow> FollowUp \<Rightarrow>
     ResearchProgress \<times> ResearchProgress list \<times> (error + ResearchResult)"
where
  "deepResearch env query breadth depth learnings0 sources0 =
     (let progress = initialProgress breadth depth
      in case determineResearchTool env query of
           Inl e \<Rightarrow> ([], Inl e)
         | Inr (None, why) \<Rightarrow> ([], Inl UndefinedTool)
         | Inr (Some tool, why) \<Rightarrow>
             (case generateFollowUpQuestions env query (description tool) breadth learnings0 of
                Inl e \<Rightarrow> ([], Inl e)
              | Inr followUpQuestions \<Rightarrow>
                  (case reportProgress
                          (\<lambda>p. p\<lparr> totalQueries := length followUpQuestions,
                                  currentQuery := (case followUpQuestions of [] \<Rightarrow> None
                                                   | q # _ \<Rightarrow> Some (question q)) \<rparr>)
                          progress of
                     (progress1, seen1) \<Rightarrow>
                       (case fanOut (researchBranch env tool breadth depth learnings0 sources0)
                                    progress1 followUpQuestions of
                          (seen2, results) \<Rightarrow>
                            (seen1 @ seen2,
                             (case promiseAll results of
                                Inl e \<Rightarrow> Inl e
                              | Inr flatResults \<Rightarrow> Inr (combineResults flatResults)))))))"
| "researchBranch env tool breadth depth learnings0 sources0 progress questionObj =
     (case execute tool (question questionObj) of
        Inl e \<Rightarrow>
          (progress, [], Inr \<lparr> learnings = [], sources = [], compliance_scores = Some [] \<rparr>)
      | Inr response \<Rightarrow>
          (case processAgentResponse response of
             (newLearnings, newSources, score) \<Rightarrow>
               (let newBreadth = ceilHalf breadth;
                    newDepth = depth - 1;
                    allLearnings = learnings0 @ newLearnings;
                    allSources = sources0 @ newSources
                in if newDepth > 0 then
                     (case reportProgress
                             (\<lambda>p. p\<lparr> currentDepth := newDepth,
                                     currentBreadth := newBreadth,
                                     completedQueries := completedQueries p + 1,
                                     currentQuery := Some (question questionObj) \<rparr>)
                             progress of
                        (progress', seen) \<Rightarrow>
                          (case deepResearch env (followUpQuery response questionObj)
                                  newBreadth newDepth allLearnings allSources of
                             (subseen, r) \<Rightarrow> (progress', seen @ subseen, r)))
                   else
                     (case reportProgress
                             (\<lambda>p. p\<lparr> currentDepth := 0,
                                     completedQueries := completedQueries p + 1,
                                     currentQuery := Some (question questionObj) \<rparr>)
                             progress of
                        (progress', seen) \<Rightarrow>
                          (progress', seen,
                           Inr \<lparr> learnings = allLearnings, sources = allSources,
                                 compliance_scores =
                                   (case score of
                                      None \<Rightarrow> None
                                    | Some s \<Rightarrow> if s = [] then None else Some [s]) \<rparr>)))))"
  by pat_completeness auto

termination
  by (relation "measure (\<lambda>x. case x of
            Inl (env, query, breadth, depth, ls, ss) \<Rightarrow> 2 * nat depth + 1
          | Inr (env, tool, breadth, depth, ls, ss, p, q) \<Rightarrow> 2 * nat depth)")
     auto

declare deepResearch.simps [simp del] researchBranch.simps [simp del]

section \<open>The source's arithmetic on \<open>depth\<close>, and the engine without a bound on it\<close>

text \<open>
  \<open>depth\<close> is a JavaScript number, a double. \<open>roundToDouble n\<close> is the double nearest to
  the integer \<open>n\<close>, ties to the even significand (magnitudes below \<open>2 ^ 1024\<close>): the
  integers up to \<open>2 ^ 53\<close> are doubles, from there to \<open>2 ^ 54\<close> every second one is, and so
  on; \<open>ulpOf m\<close> is the distance between neighbouring doubles at \<open>m\<close>. \<open>jsMinusOne depth\<close>
  is what \<open>depth - 1\<close> evaluates to. (\<open>Math.ceil(breadth / 2)\<close> is exact on every integer
  double: halving is exact and the ceiling of a double is a double.)
\<close>

function ulpOf :: "nat \<Rightarrow> nat" where
  "ulpOf m = (if m < 2 ^ 53 then 1 else 2 * ulpOf (m div 2))"
  by pat_completeness auto

termination
  by (relation "measure (\<lambda>m. m)") auto

declare ulpOf.simps [simp del]

definition roundToDouble :: "int \<Rightarrow> int" where
  "roundToDouble n =
     (let m = nat \<bar>n\<bar>; u = ulpOf m; q = m div u; r = m mod u
      in sgn n * int (if 2 * r < u then q * u
                      else if u < 2 * r then (q + 1) * u
                      else if even q then q * u else (q + 1) * u))"

definition jsMinusOne :: "int \<Rightarrow> int" where
  "jsMinusOne depth = roundToDouble (depth - 1)"

text \<open>
  \<open>deepResearchFuel\<close> and \<open>researchBranchFuel\<close> are \<open>deepResearch\<close> and \<open>researchBranch\<close>
  with \<open>newDepth\<close> computed as the source computes it, \<open>jsMinusOne depth\<close>. With that
  arithmetic the depth need not decrease, so the nesting of the calls is bounded by a
  fuel: \<open>None\<close> says that the recursion has not come to an end within \<open>fuel\<close> nested
  calls of \<open>deepResearch\<close>, \<open>Some\<close> gives the snapshots and the outcome of a recursion
  that has. A node one of whose branches has not come to an end has not come to an end
  either (\<open>those\<close>), even where another branch has already rejected its promise: \<open>None\<close>
  is about the recursion, not about the promise. Up to \<open>2 ^ 53\<close> the two engines agree
  (lemma \<open>fuel_agrees\<close>).
\<close>

function (sequential)
  deepResearchFuel ::
    "nat \<Rightarrow> Env \<Rightarrow> string \<Rightarrow> int \<Rightarrow> int \<Rightarrow> string list \<Rightarrow> string list \<Rightarrow>
     (ResearchProgress list \<times> (error + ResearchResult)) option"
and researchBranchFuel ::
    "nat \<Rightarrow> Env \<Rightarrow> Tool \<Rightarrow> int \<Rightarrow> int \<Rightarrow> string list \<Rightarrow> string list \<Rightarrow>
     ResearchProgress \<Rightarrow> FollowUp \<Rightarrow>
     ResearchProgress \<times> ResearchProgress list \<times> (error + ResearchResult) option"
where
  "deepResearchFuel 0 env query breadth depth learnings0 sources0 = None"
| "deepResearchFuel (Suc fuel) env query breadth depth learnings0 sources0 =
     (let progress = initialProgress breadth depth
      in case determineResearchTool env query of
           Inl e \<Rightarrow> Some ([], Inl e)
         | Inr (None, why) \<Rightarrow> Some ([], Inl UndefinedTool)
         | Inr (Some tool, why) \<Rightarrow>
             (case generateFollowUpQuestions env query (description tool) breadth learnings0 of
                Inl e \<Rightarrow> Some ([], Inl e)
              | Inr followUpQuestions \<Rightarrow>
                  (case reportProgress
                          (\<lambda>p. p\<lparr> totalQueries := length followUpQuestions,
                                  currentQuery := (case followUpQuestions of [] \<Rightarrow> None
                                                   | q # _ \<Rightarrow> Some (question q)) \<rparr>)
                          progress of
                     (progress1, seen1) \<Rightarrow>
                       (case fanOut (researchBranchFuel fuel env tool breadth depth
                                       learnings0 sources0)
                                    progress1 followUpQuestions of
                          (seen2, results) \<Rightarrow>
                            (case those results of
                               None \<Rightarrow> None
                             | Some settled \<Rightarrow>
                                 Some (seen1 @ seen2,
                                       (case promiseAll settled of
                                          Inl e \<Rightarrow> Inl e
                                        | Inr flatResults \<Rightarrow>
                                            Inr (combineResults flatResults))))))))"
| "researchBranchFuel fuel env tool breadth depth learnings0 sources0 progress questionObj =
     (case execute tool (question questionObj) of
        Inl e \<Rightarrow>
          (progress, [],
           Some (Inr \<lparr> learnings = [], sources = [], compliance_scores = Some [] \<rparr>))
      | Inr response \<Rightarrow>
          (case processAgentResponse response of
             (newLearnings, newSources, score) \<Rightarrow>
               (let newBreadth = ceilHalf breadth;
                    newDepth = jsMinusOne depth;
                    allLearnings = learnings0 @ newLearnings;
                    allSources = sources0 @ newSources
                in if newDepth > 0 then
                     (case reportProgress
                             (\<lambda>p. p\<lparr> currentDepth := newDepth,
                                     currentBreadth := newBreadth,
                                     completedQueries := completedQueries p + 1,
                                     currentQuery := Some (question questionObj) \<rparr>)
                             progress of
                        (progress', seen) \<Rightarrow>
                          (case deepResearchFuel fuel env (followUpQuery response questionObj)
                                  newBreadth newDepth allLearnings allSources of
                             None \<Rightarrow> (progress', seen, None)
                           | Some (subseen, r) \<Rightarrow> (progress', seen @ subseen, Some r)))
                   else
                     (case reportProgress
                             (\<lambda>p. p\<lparr> currentDepth := 0,
                                     completedQueries := completedQueries p + 1,
                                     currentQuery := Some (question questionObj) \<rparr>)
                             progress of
                        (progress', seen) \<Rightarrow>
                          (progress', seen,
                           Some (Inr \<lparr> learnings = allLearnings, sources = allSources,
                                       compliance_scores =
                                         (case score of
                                            None \<Rightarrow> None
                                          | Some s \<Rightarrow> if s = [] then None else Some [s]) \<rparr>))))))"
  by pat_completeness auto

termination
  by (relation "measure (\<lambda>x. case x of
            Inl (fuel, env, query, breadth, depth, ls, ss) \<Rightarrow> 2 * fuel
          | Inr (fuel, env, tool, breadth, depth, ls, ss, p, q) \<Rightarrow> 2 * fuel + 1)")
     auto

declare deepResearchFuel.simps(2) [simp del] researchBranchFuel.simps [simp del]

section \<open>Notions the statements use\<close>

text \<open>
  The outcome of one branch: what the closure for \<open>questionObj\<close> resolves or rejects
  with. It does not depend on the state of \<open>progress\<close> (lemma \<open>researchBranch_result\<close>).
\<close>

definition branchResult ::
  "Env \<Rightarrow> Tool \<Rightarrow> int \<Rightarrow> int \<Rightarrow> string list \<Rightarrow> string list \<Rightarrow> FollowUp \<Rightarrow>
   error + ResearchResult" where
  "branchResult env tool breadth depth learnings0 sources0 questionObj =
     snd (snd (researchBranch env tool breadth depth learnings0 sources0
                 (initialProgress breadth depth) questionObj))"

text \<open>The result of the \<open>catch\<close> block.\<close>

definition emptyResult :: ResearchResult where
  "emptyResult = \<lparr> learnings = [], sources = [], compliance_scores = Some [] \<rparr>"

text \<open>
  A call of \<open>deepResearch\<close> is given by its arguments
  \<open>(query, breadth, depth, learnings, sources)\<close>. \<open>recursiveCalls env c\<close> lists the calls
  of \<open>deepResearch\<close> that the branches of the call \<open>c\<close> make, in the order of the follow-up
  questions: one for each question whose \<open>tool.execute\<close> succeeds, when \<open>newDepth > 0\<close>.
  (Lemma \<open>callsDirectly_is_rel\<close> shows that these are the recursive calls of the
  definition of \<open>deepResearch\<close>.)
\<close>

type_synonym call = "string \<times> int \<times> int \<times> string list \<times> string list"

definition recursiveCalls :: "Env \<Rightarrow> call \<Rightarrow> call list" where
  "recursiveCalls env c =
     (case c of (query, breadth, depth, learnings0, sources0) \<Rightarrow>
        (case determineResearchTool env query of
           Inr (Some tool, why) \<Rightarrow>
             (case generateFollowUpQuestions env query (description tool) breadth learnings0 of
                Inr followUpQuestions \<Rightarrow>
                  concat (map (\<lambda>questionObj.
                    case execute tool (question questionObj) of
                      Inl e \<Rightarrow> []
                    | Inr response \<Rightarrow>
                        (case processAgentResponse response of
                           (newLearnings, newSources, score) \<Rightarrow>
                             if depth - 1 > 0
                             then [(followUpQuery response questionObj, ceilHalf breadth,
                                    depth - 1, learnings0 @ newLearnings,
                                    sources0 @ newSources)]
                             else [])) followUpQuestions)
              | Inl e \<Rightarrow> [])
         | _ \<Rightarrow> []))"

definition callsDirectly :: "Env \<Rightarrow> call \<Rightarrow> call \<Rightarrow> bool" where
  "callsDirectly env c c' = (c' \<in> set (recursiveCalls env c))"

definition outcome :: "Env \<Rightarrow> call \<Rightarrow> error + ResearchResult" where
  "outcome env c =
     (case c of (query, breadth, depth, learnings0, sources0) \<Rightarrow>
        snd (deepResearch env query breadth depth learnings0 sources0))"

definition observed :: "Env \<Rightarrow> call \<Rightarrow> ResearchProgress list" where
  "observed env c =
     (case c of (query, breadth, depth, learnings0, sources0) \<Rightarrow>
        fst (deepResearch env query breadth depth learnings0 sources0))"

text \<open>
  An oracle call of the node \<open>c\<close> fails: the tool selection rejects, or the selected
  tool exists and the generation of follow-up questions rejects.
\<close>

definition oracleFails :: "Env \<Rightarrow> call \<Rightarrow> bool" where
  "oracleFails env c =
     (case c of (query, breadth, depth, learnings0, sources0) \<Rightarrow>
        (case classify env query of
           Inl e \<Rightarrow> True
         | Inr res \<Rightarrow>
             (case researchTools env (toolName res) of
                None \<Rightarrow> False
              | Some tool \<Rightarrow>
                  isl (expand env query (description tool) breadth learnings0))))"

text \<open>
  The breadth fields of a snapshot lie between \<open>1\<close> and \<open>b\<close>: \<open>totalBreadth\<close> is the breadth
  of the call that made the snapshot, \<open>currentBreadth\<close> that breadth or the breadth it
  passes to its recursive calls.
\<close>

definition breadthWithin :: "int \<Rightarrow> ResearchProgress \<Rightarrow> bool" where
  "breadthWithin b s =
     (1 \<le> totalBreadth s \<and> totalBreadth s \<le> b \<and> 1 \<le> currentBreadth s \<and> currentBreadth s \<le> b)"

text \<open>
  Deduplication that keeps every value at its first occurrence, written from the words
  "each distinct string at the position of its first occurrence"; \<open>arrayFromSet\<close> above
  is the one written from the code.
\<close>

primrec firstOccurrences :: "'a list \<Rightarrow> 'a list" where
  "firstOccurrences [] = []"
| "firstOccurrences (x # xs) = x # filter (\<lambda>y. y \<noteq> x) (firstOccurrences xs)"

subsection \<open>A small catalogue and two oracles for concrete runs\<close>

text \<open>
  \<open>echoTool\<close> answers a question with the question itself and one citation; it throws on
  the question \<open>bad\<close>, scores \<open>A\<close> with \<open>0.9\<close> and \<open>B\<close> with the empty string.
  \<open>steadyEnv qs\<close> always selects \<open>echoTool\<close> and always proposes the questions \<open>qs\<close>;
  \<open>brittleEnv qs\<close> does the same at the root and fails to generate questions as soon as
  there are previous learnings, that is in every recursive call.
\<close>

definition echoTool :: Tool where
  "echoTool =
     \<lparr> description = ''echo'',
       execute = (\<lambda>q. if q = ''bad'' then Inl (ToolFailure ''HTTP error'')
                       else Inr \<lparr> content = q,
                                  source = Some [\<lparr> file_name = q, file_path = ''/kb'' \<rparr>],
                                  compliance_score =
                                    (if q = ''A'' then Some ''0.9''
                                     else if q = ''B'' then Some '''' else None) \<rparr>) \<rparr>"

definition ask :: "string \<Rightarrow> FollowUp" where
  "ask q = \<lparr> question = q, rationale = ''why'' \<rparr>"

definition steadyEnv :: "FollowUp list \<Rightarrow> Env" where
  "steadyEnv qs =
     \<lparr> researchTools = [''echo'' \<mapsto> echoTool],
       classify = (\<lambda>query. Inr \<lparr> toolName = ''echo'', reason = ''only tool'' \<rparr>),
       expand = (\<lambda>query toolDescription numQuestions previousLearnings. Inr qs) \<rparr>"

definition brittleEnv :: "FollowUp list \<Rightarrow> Env" where
  "brittleEnv qs =
     \<lparr> researchTools = [''echo'' \<mapsto> echoTool],
       classify = (\<lambda>query. Inr \<lparr> toolName = ''echo'', reason = ''only tool'' \<rparr>),
       expand = (\<lambda>query toolDescription numQuestions previousLearnings.
                   if previousLearnings = [] then Inr qs
                   else Inl (OracleFailure ''no object generated'')) \<rparr>"

section \<open>Unfolding the engine\<close>

lemma researchBranch_failed:
  "execute tool (question q) = Inl e \<Longrightarrow>
   researchBranch env tool b d ls ss p q =
     (p, [], Inr \<lparr> learnings = [], sources = [], compliance_scores = Some [] \<rparr>)"
  by (simp add: researchBranch.simps)

lemma researchBranch_leaf:
  "execute tool (question q) = Inr r \<Longrightarrow> d \<le> 1 \<Longrightarrow>
   researchBranch env tool b d ls ss p q =
     (p\<lparr> currentDepth := 0, completedQueries := completedQueries p + 1,
         currentQuery := Some (question q) \<rparr>,
      [p\<lparr> currentDepth := 0, completedQueries := completedQueries p + 1,
          currentQuery := Some (question q) \<rparr>],
      Inr \<lparr> learnings = ls @ [content r],
            sources = ss @ (case source r of None \<Rightarrow> [] | Some xs \<Rightarrow> map formatSource xs),
            compliance_scores = (case compliance_score r of None \<Rightarrow> None
                                 | Some s \<Rightarrow> if s = [] then None else Some [s]) \<rparr>)"
  by (simp add: researchBranch.simps processAgentResponse_def reportProgress_def)

lemma researchBranch_descend:
  "execute tool (question q) = Inr r \<Longrightarrow> 1 < d \<Longrightarrow>
   researchBranch env tool b d ls ss p q =
     (p\<lparr> currentDepth := d - 1, currentBreadth := ceilHalf b,
         completedQueries := completedQueries p + 1,
         currentQuery := Some (question q) \<rparr>,
      p\<lparr> currentDepth := d - 1, currentBreadth := ceilHalf b,
         completedQueries := completedQueries p + 1,
         currentQuery := Some (question q) \<rparr> #
        fst (deepResearch env (followUpQuery r q) (ceilHalf b) (d - 1) (ls @ [content r])
               (ss @ (case source r of None \<Rightarrow> [] | Some xs \<Rightarrow> map formatSource xs))),
      snd (deepResearch env (followUpQuery r q) (ceilHalf b) (d - 1) (ls @ [content r])
               (ss @ (case source r of None \<Rightarrow> [] | Some xs \<Rightarrow> map formatSource xs))))"
  by (simp add: researchBranch.simps processAgentResponse_def reportProgress_def Let_def
           split: prod.splits)

lemma researchBranch_result:
  "snd (snd (researchBranch env tool b d ls ss p q)) = branchResult env tool b d ls ss q"
proof (cases "execute tool (question q)")
  case (Inl e)
  then show ?thesis by (simp add: branchResult_def researchBranch_failed)
next
  case (Inr r)
  show ?thesis
  proof (cases "1 < d")
    case True
    with Inr show ?thesis by (simp add: branchResult_def researchBranch_descend)
  next
    case False
    then have "d \<le> 1" by simp
    with Inr show ?thesis by (simp add: branchResult_def researchBranch_leaf)
  qed
qed

lemma fanOut_results:
  "(\<And>s q. q \<in> set qs \<Longrightarrow> snd (snd (f s q)) = g q) \<Longrightarrow> snd (fanOut f p qs) = map g qs"
proof (induction qs arbitrary: p)
  case Nil
  show ?case by simp
next
  case (Cons a qs)
  obtain p' es r where fa: "f p a = (p', es, r)" by (cases "f p a") auto
  obtain es' rs where rest: "fanOut f p' qs = (es', rs)" by (cases "fanOut f p' qs") auto
  have "r = g a" using Cons.prems [of a p] fa by simp
  moreover have "rs = map g qs" using Cons.IH [of p'] Cons.prems rest by simp
  ultimately show ?case using fa rest by simp
qed

lemma deepResearch_result:
  "snd (deepResearch env query b d ls ss) =
     (case determineResearchTool env query of
        Inl e \<Rightarrow> Inl e
      | Inr (None, why) \<Rightarrow> Inl UndefinedTool
      | Inr (Some tool, why) \<Rightarrow>
          (case generateFollowUpQuestions env query (description tool) b ls of
             Inl e \<Rightarrow> Inl e
           | Inr qs \<Rightarrow>
               (case promiseAll (map (branchResult env tool b d ls ss) qs) of
                  Inl e \<Rightarrow> Inl e
                | Inr rs \<Rightarrow> Inr (combineResults rs))))"
proof -
  have *: "snd (fanOut (researchBranch env tool b d ls ss) p qs) =
           map (branchResult env tool b d ls ss) qs" for tool p qs
    by (rule fanOut_results) (rule researchBranch_result)
  show ?thesis
  proof (cases "determineResearchTool env query")
    case (Inl e)
    then show ?thesis by (simp add: deepResearch.simps)
  next
    case (Inr tw)
    obtain t why where tw: "tw = (t, why)" by (cases tw) auto
    show ?thesis
    proof (cases t)
      case None
      with Inr tw show ?thesis by (simp add: deepResearch.simps)
    next
      case (Some tool)
      show ?thesis
      proof (cases "generateFollowUpQuestions env query (description tool) b ls")
        case (Inl e)
        with Inr tw Some show ?thesis by (simp add: deepResearch.simps)
      next
        case gen: (Inr qs)
        obtain es rs where fo: "fanOut (researchBranch env tool b d ls ss)
            (fst (reportProgress (\<lambda>p. p\<lparr> totalQueries := length qs,
                    currentQuery := (case qs of [] \<Rightarrow> None | q # _ \<Rightarrow> Some (question q)) \<rparr>)
                  (initialProgress b d))) qs = (es, rs)"
          by (cases "fanOut (researchBranch env tool b d ls ss)
            (fst (reportProgress (\<lambda>p. p\<lparr> totalQueries := length qs,
                    currentQuery := (case qs of [] \<Rightarrow> None | q # _ \<Rightarrow> Some (question q)) \<rparr>)
                  (initialProgress b d))) qs") auto
        have rs: "rs = map (branchResult env tool b d ls ss) qs"
          using * [of tool _ qs] fo by (metis snd_conv)
        show ?thesis
          using Inr tw Some gen fo rs
          by (simp add: deepResearch.simps reportProgress_def split: sum.splits)
      qed
    qed
  qed
qed


lemma promiseAll_map_Inr: "promiseAll (map Inr vs) = Inr vs"
  by (induction vs) simp_all

lemma promiseAll_Inl_mem: "Inl e \<in> set ps \<Longrightarrow> \<exists>e'. promiseAll ps = Inl e'"
proof (induction ps)
  case Nil
  then show ?case by simp
next
  case (Cons p ps)
  show ?case
  proof (cases p)
    case (Inl a)
    then show ?thesis by simp
  next
    case (Inr v)
    with Cons obtain e' where "promiseAll ps = Inl e'" by auto
    with Inr show ?thesis by simp
  qed
qed

lemma promiseAll_Inl_from: "promiseAll ps = Inl e \<Longrightarrow> Inl e \<in> set ps"
proof (induction ps)
  case Nil
  then show ?case by simp
next
  case (Cons p ps)
  then show ?case by (cases p) (auto split: sum.splits)
qed

lemma foldl_setAdd:
  "foldl setAdd acc xs = acc @ filter (\<lambda>y. y \<notin> set acc) (firstOccurrences xs)"
proof (induction xs arbitrary: acc)
  case Nil
  show ?case by simp
next
  case (Cons x xs)
  show ?case
  proof (cases "x \<in> set acc")
    case True
    then have step: "setAdd acc x = acc" by (simp add: setAdd_def)
    have "filter (\<lambda>y. y \<notin> set acc) (filter (\<lambda>y. y \<noteq> x) (firstOccurrences xs)) =
          filter (\<lambda>y. y \<notin> set acc) (firstOccurrences xs)"
      using True by (auto intro: filter_cong)
    with True show ?thesis by (simp add: step Cons.IH del: filter_filter)
  next
    case False
    then have step: "setAdd acc x = acc @ [x]" by (simp add: setAdd_def)
    have "filter (\<lambda>y. y \<notin> set (acc @ [x])) (firstOccurrences xs) =
          filter (\<lambda>y. y \<notin> set acc) (filter (\<lambda>y. y \<noteq> x) (firstOccurrences xs))"
      by (auto intro: filter_cong)
    with False show ?thesis by (simp add: step Cons.IH del: filter_filter)
  qed
qed

lemma arrayFromSet_firstOccurrences: "arrayFromSet xs = firstOccurrences xs"
  by (simp add: arrayFromSet_def foldl_setAdd)

lemma set_firstOccurrences: "set (firstOccurrences xs) = set xs"
  by (induction xs) auto

lemma distinct_firstOccurrences: "distinct (firstOccurrences xs)"
  by (induction xs) (auto simp: set_firstOccurrences)

lemma set_arrayFromSet: "set (arrayFromSet xs) = set xs"
  by (simp add: arrayFromSet_firstOccurrences set_firstOccurrences)

lemma distinct_arrayFromSet: "distinct (arrayFromSet xs)"
  by (simp add: arrayFromSet_firstOccurrences distinct_firstOccurrences)

lemma length_arrayFromSet: "length (arrayFromSet xs) = card (set xs)"
  using distinct_card [OF distinct_arrayFromSet, of xs] by (simp add: set_arrayFromSet)

lemma deepResearch_joined:
  assumes "determineResearchTool env query = Inr (Some tool, why)"
    and "generateFollowUpQuestions env query (description tool) b ls = Inr qs"
    and "map (branchResult env tool b d ls ss) qs = map Inr rs"
  shows "snd (deepResearch env query b d ls ss) = Inr (combineResults rs)"
  using assms by (simp add: deepResearch_result promiseAll_map_Inr)

lemma branchResult_failed:
  "execute tool (question q) = Inl e \<Longrightarrow> branchResult env tool b d ls ss q = Inr emptyResult"
  by (simp add: branchResult_def researchBranch_failed emptyResult_def)

lemma branchResult_leaf:
  "execute tool (question q) = Inr r \<Longrightarrow> d \<le> 1 \<Longrightarrow>
   branchResult env tool b d ls ss q =
     Inr \<lparr> learnings = ls @ [content r],
           sources = ss @ (case source r of None \<Rightarrow> [] | Some xs \<Rightarrow> map formatSource xs),
           compliance_scores = (case compliance_score r of None \<Rightarrow> None
                                | Some s \<Rightarrow> if s = [] then None else Some [s]) \<rparr>"
  by (simp add: branchResult_def researchBranch_leaf)

lemma branchResult_descend:
  "execute tool (question q) = Inr r \<Longrightarrow> 1 < d \<Longrightarrow>
   branchResult env tool b d ls ss q =
     snd (deepResearch env (followUpQuery r q) (ceilHalf b) (d - 1) (ls @ [content r])
            (ss @ (case source r of None \<Rightarrow> [] | Some xs \<Rightarrow> map formatSource xs)))"
  by (simp add: branchResult_def researchBranch_descend)

lemma combineResults_empty: "combineResults (replicate n emptyResult) = emptyResult"
proof -
  have "concat (replicate n ([]::string list)) = []" by (induction n) simp_all
  then show ?thesis
    by (simp add: combineResults_def emptyResult_def arrayFromSet_def)
qed

section \<open>The tree of recursive calls\<close>

lemma recursiveCalls_selected:
  assumes "determineResearchTool env query = Inr (Some tool, why)"
    and "generateFollowUpQuestions env query (description tool) b ls = Inr qs"
  shows "recursiveCalls env (query, b, d, ls, ss) =
           concat (map (\<lambda>q. case execute tool (question q) of
                               Inl e \<Rightarrow> []
                             | Inr r \<Rightarrow>
                                 if 1 < d
                                 then [(followUpQuery r q, ceilHalf b, d - 1, ls @ [content r],
                                        ss @ (case source r of None \<Rightarrow> []
                                              | Some xs \<Rightarrow> map formatSource xs))]
                                 else []) qs)"
  using assms by (simp add: recursiveCalls_def processAgentResponse_def cong: sum.case_cong)

lemma recursiveCalls_none:
  "determineResearchTool env query = Inl e \<Longrightarrow> recursiveCalls env (query, b, d, ls, ss) = []"
  "determineResearchTool env query = Inr (None, why) \<Longrightarrow>
     recursiveCalls env (query, b, d, ls, ss) = []"
  "determineResearchTool env query = Inr (Some tool, why) \<Longrightarrow>
   generateFollowUpQuestions env query (description tool) b ls = Inl e \<Longrightarrow>
     recursiveCalls env (query, b, d, ls, ss) = []"
  by (simp_all add: recursiveCalls_def)

lemma callsDirectly_cases:
  assumes "callsDirectly env (query, b, d, ls, ss) c'"
  obtains tool why qs q r where
    "determineResearchTool env query = Inr (Some tool, why)"
    "generateFollowUpQuestions env query (description tool) b ls = Inr qs"
    "q \<in> set qs"
    "execute tool (question q) = Inr r"
    "1 < d"
    "c' = (followUpQuery r q, ceilHalf b, d - 1, ls @ [content r],
           ss @ (case source r of None \<Rightarrow> [] | Some xs \<Rightarrow> map formatSource xs))"
proof -
  from assms have mem: "c' \<in> set (recursiveCalls env (query, b, d, ls, ss))"
    by (simp add: callsDirectly_def)
  show thesis
  proof (cases "determineResearchTool env query")
    case (Inl e)
    with mem show ?thesis by (simp add: recursiveCalls_none)
  next
    case (Inr tw)
    obtain t why where tw: "tw = (t, why)" by (cases tw) auto
    show ?thesis
    proof (cases t)
      case None
      with mem Inr tw show ?thesis by (simp add: recursiveCalls_none)
    next
      case (Some tool)
      with Inr tw have sel: "determineResearchTool env query = Inr (Some tool, why)" by simp
      show ?thesis
      proof (cases "generateFollowUpQuestions env query (description tool) b ls")
        case (Inl e)
        with mem sel show ?thesis by (simp add: recursiveCalls_none)
      next
        case gen: (Inr qs)
        from mem obtain q where q: "q \<in> set qs" and
          c': "c' \<in> set (case execute tool (question q) of
                              Inl e \<Rightarrow> []
                            | Inr r \<Rightarrow>
                                if 1 < d
                                then [(followUpQuery r q, ceilHalf b, d - 1, ls @ [content r],
                                       ss @ (case source r of None \<Rightarrow> []
                                             | Some xs \<Rightarrow> map formatSource xs))]
                                else [])"
          by (auto simp: recursiveCalls_selected [OF sel gen])
        show ?thesis
        proof (cases "execute tool (question q)")
          case (Inl e)
          with c' show ?thesis by simp
        next
          case ex: (Inr r)
          show ?thesis
          proof (cases "1 < d")
            case True
            with c' ex have "c' = (followUpQuery r q, ceilHalf b, d - 1, ls @ [content r],
                ss @ (case source r of None \<Rightarrow> [] | Some xs \<Rightarrow> map formatSource xs))"
              by simp
            from that [OF sel gen q ex True this] show ?thesis .
          next
            case False
            with c' ex show ?thesis by simp
          qed
        qed
      qed
    qed
  qed
qed

lemma callsDirectly_intro:
  assumes "determineResearchTool env query = Inr (Some tool, why)"
    and "generateFollowUpQuestions env query (description tool) b ls = Inr qs"
    and "q \<in> set qs"
    and "execute tool (question q) = Inr r"
    and "1 < d"
  shows "callsDirectly env (query, b, d, ls, ss)
           (followUpQuery r q, ceilHalf b, d - 1, ls @ [content r],
            ss @ (case source r of None \<Rightarrow> [] | Some xs \<Rightarrow> map formatSource xs))"
  unfolding callsDirectly_def recursiveCalls_selected [OF assms(1,2)]
  using assms(3,4,5) by (auto intro!: bexI [of _ q])

lemma oracleFails_rejects:
  assumes "oracleFails env c"
  shows "\<exists>e. outcome env c = Inl e"
proof -
  obtain query b d ls ss where c: "c = (query, b, d, ls, ss)" by (cases c) auto
  show ?thesis
  proof (cases "classify env query")
    case (Inl e)
    then show ?thesis
      by (simp add: c outcome_def deepResearch_result determineResearchTool_def)
  next
    case (Inr res)
    with assms c obtain tool where tool: "researchTools env (toolName res) = Some tool"
      and ex: "isl (expand env query (description tool) b ls)"
      by (auto simp: oracleFails_def split: option.splits)
    from ex obtain e where "expand env query (description tool) b ls = Inl e"
      by (cases "expand env query (description tool) b ls") auto
    with Inr tool show ?thesis
      by (simp add: c outcome_def deepResearch_result determineResearchTool_def
            generateFollowUpQuestions_def)
  qed
qed

lemma child_rejection_rejects:
  assumes "callsDirectly env c c'" and "outcome env c' = Inl e"
  shows "\<exists>e'. outcome env c = Inl e'"
proof -
  obtain query b d ls ss where c: "c = (query, b, d, ls, ss)" by (cases c) auto
  from assms(1) [unfolded c] obtain tool why qs q r where
    sel: "determineResearchTool env query = Inr (Some tool, why)" and
    gen: "generateFollowUpQuestions env query (description tool) b ls = Inr qs" and
    q: "q \<in> set qs" and ex: "execute tool (question q) = Inr r" and d: "1 < d" and
    c': "c' = (followUpQuery r q, ceilHalf b, d - 1, ls @ [content r],
               ss @ (case source r of None \<Rightarrow> [] | Some xs \<Rightarrow> map formatSource xs))"
    by (rule callsDirectly_cases)
  have "branchResult env tool b d ls ss q = Inl e"
    using assms(2) by (simp add: c' outcome_def branchResult_descend [OF ex d])
  with q have "Inl e \<in> set (map (branchResult env tool b d ls ss) qs)"
    by force
  then obtain e' where "promiseAll (map (branchResult env tool b d ls ss) qs) = Inl e'"
    using promiseAll_Inl_mem by blast
  with sel gen show ?thesis
    by (simp add: c outcome_def deepResearch_result)
qed

lemma rejection_reaches_ancestors:
  assumes "(callsDirectly env)\<^sup>*\<^sup>* c c'" and "\<exists>e. outcome env c' = Inl e"
  shows "\<exists>e. outcome env c = Inl e"
  using assms
proof (induction rule: converse_rtranclp_induct)
  case base
  then show ?case .
next
  case (step x y)
  then obtain e where "outcome env y = Inl e" by blast
  from child_rejection_rejects [OF step.hyps(1) this] show ?case .
qed

lemma ceilHalf_ceiling: "ceilHalf b = \<lceil>real_of_int b / 2\<rceil>"
proof -
  have "\<lceil>real_of_int b / real_of_int 2\<rceil> = - (- b div 2)"
    by (rule ceiling_divide_eq_div)
  then show ?thesis by (simp add: ceilHalf_def)
qed

lemma ceilHalf_bounds: "1 \<le> b \<Longrightarrow> 1 \<le> ceilHalf b \<and> ceilHalf b \<le> b"
  unfolding ceilHalf_def by linarith

lemma recursiveCalls_leaf:
  assumes "d \<le> 1"
  shows "recursiveCalls env (query, b, d, ls, ss) = []"
proof (rule ccontr)
  assume "recursiveCalls env (query, b, d, ls, ss) \<noteq> []"
  then have "hd (recursiveCalls env (query, b, d, ls, ss))
               \<in> set (recursiveCalls env (query, b, d, ls, ss))"
    by (rule hd_in_set)
  then obtain c' where "callsDirectly env (query, b, d, ls, ss) c'"
    unfolding callsDirectly_def by blast
  then have "1 < d" by (rule callsDirectly_cases)
  with assms show False by simp
qed

section \<open>The recursive calls of the definition\<close>

text \<open>
  \<open>deepResearch_researchBranch_rel\<close> is the relation of recursive calls that the definition
  of \<open>deepResearch\<close> and \<open>researchBranch\<close> gives rise to: \<open>deepResearch_researchBranch_rel x y\<close>
  says that the call \<open>y\<close> makes the call \<open>x\<close>, where \<open>Inl\<close> holds the arguments of a call of
  \<open>deepResearch\<close> and \<open>Inr\<close> those of a call of \<open>researchBranch\<close>. It is generated from the
  two equations, under the tests that guard each call in them.
\<close>

lemma branch_makes_call:
  assumes "execute tool (question q) = Inr r" and "1 < d"
  shows "deepResearch_researchBranch_rel
           (Inl (env, followUpQuery r q, ceilHalf b, d - 1, ls @ [content r],
                 ss @ (case source r of None \<Rightarrow> [] | Some xs \<Rightarrow> map formatSource xs)))
           (Inr (env, tool, b, d, ls, ss, p, q))"
proof -
  have "deepResearch_researchBranch_rel
           (Inl (env, followUpQuery r q, ceilHalf b, d - 1, ls @ fst (processAgentResponse r),
                 ss @ fst (snd (processAgentResponse r))))
           (Inr (env, tool, b, d, ls, ss, p, q))"
    using assms
    by (intro deepResearch_researchBranch_rel.intros(2)
          [where y = "snd (processAgentResponse r)"
             and ya = "snd (snd (processAgentResponse r))"
             and xf = "fst (reportProgress
                 (\<lambda>p. p\<lparr> currentDepth := d - 1, currentBreadth := ceilHalf b,
                         completedQueries := completedQueries p + 1,
                         currentQuery := Some (question q) \<rparr>) p)"
             and yb = "snd (reportProgress
                 (\<lambda>p. p\<lparr> currentDepth := d - 1, currentBreadth := ceilHalf b,
                         completedQueries := completedQueries p + 1,
                         currentQuery := Some (question q) \<rparr>) p)"])
       simp_all
  then show ?thesis by (simp add: processAgentResponse_def)
qed

lemma call_made_by_branch:
  assumes "deepResearch_researchBranch_rel (Inl (env', query', b', d', ls', ss'))
             (Inr (env, tool, b, d, ls, ss, p, q))"
  shows "\<exists>r. execute tool (question q) = Inr r \<and> 1 < d \<and> env' = env \<and>
             query' = followUpQuery r q \<and> b' = ceilHalf b \<and> d' = d - 1 \<and>
             ls' = ls @ [content r] \<and>
             ss' = ss @ (case source r of None \<Rightarrow> [] | Some xs \<Rightarrow> map formatSource xs)"
  using assms
  by (cases rule: deepResearch_researchBranch_rel.cases)
     (auto simp: processAgentResponse_def)

lemma branch_calls_only_deepResearch:
  assumes "deepResearch_researchBranch_rel x (Inr (env, tool, b, d, ls, ss, p, q))"
  shows "\<exists>env' query' b' d' ls' ss'. x = Inl (env', query', b', d', ls', ss')"
  using assms by (cases rule: deepResearch_researchBranch_rel.cases) auto

lemma leaf_branch_makes_no_call:
  assumes "d \<le> 1"
  shows "\<not> deepResearch_researchBranch_rel x (Inr (env, tool, b, d, ls, ss, p, q))"
proof
  assume c: "deepResearch_researchBranch_rel x (Inr (env, tool, b, d, ls, ss, p, q))"
  from branch_calls_only_deepResearch [OF c]
  obtain env' query' b' d' ls' ss' where x: "x = Inl (env', query', b', d', ls', ss')"
    by auto
  from call_made_by_branch [OF c [unfolded x]] have "1 < d" by auto
  with assms show False by simp
qed

lemma node_runs_branch:
  assumes "determineResearchTool env query = Inr (Some tool, why)"
    and "generateFollowUpQuestions env query (description tool) b ls = Inr qs"
    and "q \<in> set qs"
  shows "deepResearch_researchBranch_rel (Inr (env, tool, b, d, ls, ss, p, q))
           (Inl (env, query, b, d, ls, ss))"
  using assms
  by (intro deepResearch_researchBranch_rel.intros(1)
        [where b = "(Some tool, why)" and y = why and ba = qs
           and xaa = "fst (reportProgress
               (\<lambda>p. p\<lparr> totalQueries := length qs,
                       currentQuery := (case qs of [] \<Rightarrow> None | q # x \<Rightarrow> Some (question q)) \<rparr>)
               (initialProgress b d))"
           and ya = "snd (reportProgress
               (\<lambda>p. p\<lparr> totalQueries := length qs,
                       currentQuery := (case qs of [] \<Rightarrow> None | q # x \<Rightarrow> Some (question q)) \<rparr>)
               (initialProgress b d))"])
     simp_all

lemma branch_run_by_node:
  assumes "deepResearch_researchBranch_rel x (Inl (env, query, b, d, ls, ss))"
  shows "\<exists>tool why qs p q. x = Inr (env, tool, b, d, ls, ss, p, q) \<and>
           determineResearchTool env query = Inr (Some tool, why) \<and>
           generateFollowUpQuestions env query (description tool) b ls = Inr qs \<and>
           q \<in> set qs"
  using assms
  by (cases rule: deepResearch_researchBranch_rel.cases) auto

lemma callsDirectly_is_rel:
  "callsDirectly env (query, b, d, ls, ss) c' \<longleftrightarrow>
     (\<exists>tool p q. deepResearch_researchBranch_rel (Inr (env, tool, b, d, ls, ss, p, q))
                    (Inl (env, query, b, d, ls, ss)) \<and>
                  deepResearch_researchBranch_rel (Inl (env, c'))
                    (Inr (env, tool, b, d, ls, ss, p, q)))"
proof
  assume "callsDirectly env (query, b, d, ls, ss) c'"
  then obtain tool why qs q r where
    sel: "determineResearchTool env query = Inr (Some tool, why)" and
    gen: "generateFollowUpQuestions env query (description tool) b ls = Inr qs" and
    q: "q \<in> set qs" and ex: "execute tool (question q) = Inr r" and d: "1 < d" and
    c': "c' = (followUpQuery r q, ceilHalf b, d - 1, ls @ [content r],
               ss @ (case source r of None \<Rightarrow> [] | Some xs \<Rightarrow> map formatSource xs))"
    by (rule callsDirectly_cases)
  from node_runs_branch [OF sel gen q] branch_makes_call [OF ex d]
  show "\<exists>tool p q. deepResearch_researchBranch_rel (Inr (env, tool, b, d, ls, ss, p, q))
                    (Inl (env, query, b, d, ls, ss)) \<and>
                  deepResearch_researchBranch_rel (Inl (env, c'))
                    (Inr (env, tool, b, d, ls, ss, p, q))"
    unfolding c' by blast
next
  assume "\<exists>tool p q. deepResearch_researchBranch_rel (Inr (env, tool, b, d, ls, ss, p, q))
                    (Inl (env, query, b, d, ls, ss)) \<and>
                  deepResearch_researchBranch_rel (Inl (env, c'))
                    (Inr (env, tool, b, d, ls, ss, p, q))"
  then obtain tool p q where
    n: "deepResearch_researchBranch_rel (Inr (env, tool, b, d, ls, ss, p, q))
          (Inl (env, query, b, d, ls, ss))" and
    c: "deepResearch_researchBranch_rel (Inl (env, c')) (Inr (env, tool, b, d, ls, ss, p, q))"
    by blast
  from branch_run_by_node [OF n] obtain why qs where
    sel: "determineResearchTool env query = Inr (Some tool, why)" and
    gen: "generateFollowUpQuestions env query (description tool) b ls = Inr qs" and
    q: "q \<in> set qs"
    by auto
  obtain query' b' d' ls' ss' where c': "c' = (query', b', d', ls', ss')" by (cases c') auto
  from call_made_by_branch [OF c [unfolded c']] obtain r where
    ex: "execute tool (question q) = Inr r" and d: "1 < d" and
    eq: "c' = (followUpQuery r q, ceilHalf b, d - 1, ls @ [content r],
               ss @ (case source r of None \<Rightarrow> [] | Some xs \<Rightarrow> map formatSource xs))"
    unfolding c' by auto
  from callsDirectly_intro [OF sel gen q ex d] show "callsDirectly env (query, b, d, ls, ss) c'"
    unfolding eq .
qed

section \<open>What the observer sees of a recursive call\<close>

lemma deepResearch_observed:
  "fst (deepResearch env query b d ls ss) =
     (case determineResearchTool env query of
        Inl e \<Rightarrow> []
      | Inr (None, why) \<Rightarrow> []
      | Inr (Some tool, why) \<Rightarrow>
          (case generateFollowUpQuestions env query (description tool) b ls of
             Inl e \<Rightarrow> []
           | Inr qs \<Rightarrow>
               (initialProgress b d)
                  \<lparr> totalQueries := length qs,
                    currentQuery := (case qs of [] \<Rightarrow> None | q # _ \<Rightarrow> Some (question q)) \<rparr> #
               fst (fanOut (researchBranch env tool b d ls ss)
                      ((initialProgress b d)
                         \<lparr> totalQueries := length qs,
                           currentQuery := (case qs of [] \<Rightarrow> None
                                            | q # _ \<Rightarrow> Some (question q)) \<rparr>) qs)))"
  by (simp add: deepResearch.simps reportProgress_def
        split: sum.splits option.splits prod.splits)

lemma fanOut_own_reports:
  assumes "\<forall>q \<in> set qs. \<forall>r. execute tool (question q) = Inr r \<longrightarrow> 1 < d \<longrightarrow>
             fst (deepResearch env (followUpQuery r q) (ceilHalf b) (d - 1) (ls @ [content r])
                    (ss @ (case source r of None \<Rightarrow> [] | Some xs \<Rightarrow> map formatSource xs))) = []"
  shows "sorted (map completedQueries (fst (fanOut (researchBranch env tool b d ls ss) p qs))) \<and>
         (\<forall>s \<in> set (fst (fanOut (researchBranch env tool b d ls ss) p qs)).
            completedQueries p \<le> completedQueries s)"
  using assms
proof (induction qs arbitrary: p)
  case Nil
  show ?case by simp
next
  case (Cons q qs)
  from Cons.prems have tl: "\<forall>q \<in> set qs. \<forall>r. execute tool (question q) = Inr r \<longrightarrow> 1 < d \<longrightarrow>
             fst (deepResearch env (followUpQuery r q) (ceilHalf b) (d - 1) (ls @ [content r])
                    (ss @ (case source r of None \<Rightarrow> [] | Some xs \<Rightarrow> map formatSource xs))) = []"
    by simp
  show ?case
  proof (cases "execute tool (question q)")
    case (Inl e)
    obtain seen rs where rest: "fanOut (researchBranch env tool b d ls ss) p qs = (seen, rs)"
      by (cases "fanOut (researchBranch env tool b d ls ss) p qs") auto
    with Cons.IH [OF tl, of p] show ?thesis
      by (simp add: researchBranch_failed [OF Inl])
  next
    case (Inr r)
    show ?thesis
    proof (cases "1 < d")
      case False
      then have d: "d \<le> 1" by simp
      let ?p = "p\<lparr> currentDepth := 0, completedQueries := completedQueries p + 1,
                    currentQuery := Some (question q) \<rparr>"
      obtain seen rs where rest: "fanOut (researchBranch env tool b d ls ss) ?p qs = (seen, rs)"
        by (cases "fanOut (researchBranch env tool b d ls ss) ?p qs") auto
      with Cons.IH [OF tl, of ?p] have "sorted (map completedQueries seen)"
        and "\<forall>s \<in> set seen. completedQueries p + 1 \<le> completedQueries s"
        by simp_all
      with rest show ?thesis
        by (auto simp: researchBranch_leaf [OF Inr d])
    next
      case True
      let ?p = "p\<lparr> currentDepth := d - 1, currentBreadth := ceilHalf b,
                    completedQueries := completedQueries p + 1,
                    currentQuery := Some (question q) \<rparr>"
      from Cons.prems Inr True have quiet:
        "fst (deepResearch env (followUpQuery r q) (ceilHalf b) (d - 1) (ls @ [content r])
                (ss @ (case source r of None \<Rightarrow> [] | Some xs \<Rightarrow> map formatSource xs))) = []"
        by simp
      obtain seen rs where rest: "fanOut (researchBranch env tool b d ls ss) ?p qs = (seen, rs)"
        by (cases "fanOut (researchBranch env tool b d ls ss) ?p qs") auto
      with Cons.IH [OF tl, of ?p] have "sorted (map completedQueries seen)"
        and "\<forall>s \<in> set seen. completedQueries p + 1 \<le> completedQueries s"
        by simp_all
      with rest show ?thesis
        by (auto simp: researchBranch_descend [OF Inr True] quiet)
    qed
  qed
qed

lemma fanOut_observed_member:
  assumes "q \<in> set qs"
  shows "\<exists>p pre post. fst (fanOut f p0 qs) = pre @ fst (snd (f p q)) @ post"
  using assms
proof (induction qs arbitrary: p0)
  case Nil
  then show ?case by simp
next
  case (Cons a qs)
  obtain p' seen r where fa: "f p0 a = (p', seen, r)" by (cases "f p0 a") auto
  obtain seen' rs where rest: "fanOut f p' qs = (seen', rs)" by (cases "fanOut f p' qs") auto
  show ?case
  proof (cases "q = a")
    case True
    have "fst (fanOut f p0 (a # qs)) = [] @ fst (snd (f p0 q)) @ seen'"
      using fa rest True by simp
    then show ?thesis by blast
  next
    case False
    with Cons.prems have "q \<in> set qs" by simp
    from Cons.IH [OF this, of p'] obtain p pre post where
      "seen' = pre @ fst (snd (f p q)) @ post"
      using rest by auto
    then have "fst (fanOut f p0 (a # qs)) = (seen @ pre) @ fst (snd (f p q)) @ post"
      using fa rest by simp
    then show ?thesis by blast
  qed
qed

lemma observed_starts_at_zero:
  "observed env c = [] \<or> completedQueries (hd (observed env c)) = 0"
proof -
  obtain query b d ls ss where c: "c = (query, b, d, ls, ss)" by (cases c) auto
  show ?thesis
    by (simp add: c observed_def deepResearch_observed initialProgress_def
          split: sum.splits option.splits prod.splits)
qed

lemma recursive_call_is_observed:
  assumes "callsDirectly env c c'"
  shows "\<exists>pre s post. observed env c = pre @ s # observed env c' @ post \<and>
                       0 < completedQueries s"
proof -
  obtain query b d ls ss where c: "c = (query, b, d, ls, ss)" by (cases c) auto
  from assms [unfolded c] obtain tool why qs q r where
    sel: "determineResearchTool env query = Inr (Some tool, why)" and
    gen: "generateFollowUpQuestions env query (description tool) b ls = Inr qs" and
    q: "q \<in> set qs" and ex: "execute tool (question q) = Inr r" and d: "1 < d" and
    c': "c' = (followUpQuery r q, ceilHalf b, d - 1, ls @ [content r],
               ss @ (case source r of None \<Rightarrow> [] | Some xs \<Rightarrow> map formatSource xs))"
    by (rule callsDirectly_cases)
  let ?p1 = "(initialProgress b d)
               \<lparr> totalQueries := length qs,
                 currentQuery := (case qs of [] \<Rightarrow> None | q # _ \<Rightarrow> Some (question q)) \<rparr>"
  from fanOut_observed_member [OF q, of "researchBranch env tool b d ls ss" ?p1]
  obtain p pre post where
    "fst (fanOut (researchBranch env tool b d ls ss) ?p1 qs) =
       pre @ fst (snd (researchBranch env tool b d ls ss p q)) @ post"
    by blast
  then have "observed env c =
      (?p1 # pre) @
      p\<lparr> currentDepth := d - 1, currentBreadth := ceilHalf b,
         completedQueries := completedQueries p + 1,
         currentQuery := Some (question q) \<rparr> # observed env c' @ post"
    using sel gen
    by (simp add: c c' observed_def deepResearch_observed researchBranch_descend [OF ex d])
  then show ?thesis
    by (intro exI conjI) (assumption, simp)
qed

lemma descent_breaks_monotonicity:
  assumes "callsDirectly env c c'" and "observed env c' \<noteq> []"
  shows "\<not> sorted (map completedQueries (observed env c))"
proof -
  from recursive_call_is_observed [OF assms(1)] obtain pre s post where
    obs: "observed env c = pre @ s # observed env c' @ post" and s: "0 < completedQueries s"
    by blast
  from assms(2) obtain t rest where t: "observed env c' = t # rest"
    by (cases "observed env c'") auto
  with observed_starts_at_zero [of env c'] have zero: "completedQueries t = 0" by simp
  show ?thesis
  proof
    assume "sorted (map completedQueries (observed env c))"
    then have "sorted (map completedQueries pre @ map completedQueries (s # t # rest @ post))"
      by (simp add: obs t)
    then have "sorted (map completedQueries (s # t # rest @ post))"
      unfolding sorted_append by blast
    then have "completedQueries s \<le> completedQueries t" by simp
    with s zero show False by simp
  qed
qed

lemma quiet_calls_keep_monotonicity:
  assumes "\<forall>c' \<in> set (recursiveCalls env c). observed env c' = []"
  shows "sorted (map completedQueries (observed env c))"
proof -
  obtain query b d ls ss where c: "c = (query, b, d, ls, ss)" by (cases c) auto
  show ?thesis
  proof (cases "determineResearchTool env query")
    case (Inl e)
    then show ?thesis by (simp add: c observed_def deepResearch_observed)
  next
    case (Inr tw)
    obtain t why where tw: "tw = (t, why)" by (cases tw) auto
    show ?thesis
    proof (cases t)
      case None
      with Inr tw show ?thesis by (simp add: c observed_def deepResearch_observed)
    next
      case (Some tool)
      with Inr tw have sel: "determineResearchTool env query = Inr (Some tool, why)" by simp
      show ?thesis
      proof (cases "generateFollowUpQuestions env query (description tool) b ls")
        case (Inl e)
        with sel show ?thesis by (simp add: c observed_def deepResearch_observed)
      next
        case gen: (Inr qs)
        let ?p = "(initialProgress b d)
                    \<lparr> totalQueries := length qs,
                      currentQuery := (case qs of [] \<Rightarrow> None
                                       | q # _ \<Rightarrow> Some (question q)) \<rparr>"
        have quiet: "\<forall>q \<in> set qs. \<forall>r. execute tool (question q) = Inr r \<longrightarrow> 1 < d \<longrightarrow>
             fst (deepResearch env (followUpQuery r q) (ceilHalf b) (d - 1) (ls @ [content r])
                    (ss @ (case source r of None \<Rightarrow> [] | Some xs \<Rightarrow> map formatSource xs))) = []"
        proof (intro ballI allI impI)
          fix q r assume q: "q \<in> set qs" and ex: "execute tool (question q) = Inr r"
            and d: "1 < d"
          from callsDirectly_intro [OF sel gen q ex d, of ss] assms
          show "fst (deepResearch env (followUpQuery r q) (ceilHalf b) (d - 1)
                       (ls @ [content r])
                       (ss @ (case source r of None \<Rightarrow> []
                              | Some xs \<Rightarrow> map formatSource xs))) = []"
            by (auto simp: c callsDirectly_def observed_def)
        qed
        from fanOut_own_reports [OF quiet, where p = ?p]
        show ?thesis
          using sel gen by (simp add: c observed_def deepResearch_observed)
      qed
    qed
  qed
qed

lemma leaf_level_is_quiet:
  assumes "d \<le> 1"
  shows "\<forall>c' \<in> set (recursiveCalls env (query, b, d, ls, ss)). observed env c' = []"
  by (simp add: recursiveCalls_leaf [OF assms])

section \<open>The two engines agree up to \<open>2 ^ 53\<close>\<close>

lemma ulpOf_small: "m < 2 ^ 53 \<Longrightarrow> ulpOf m = 1"
  by (simp add: ulpOf.simps)

lemma ulpOf_next: "2 ^ 53 \<le> m \<Longrightarrow> m < 2 ^ 54 \<Longrightarrow> ulpOf m = 2"
proof -
  assume a: "2 ^ 53 \<le> m" and b: "m < 2 ^ 54"
  have "m div 2 < 2 ^ 53" using b by simp
  then have "ulpOf (m div 2) = 1" by (rule ulpOf_small)
  with a show ?thesis by (subst ulpOf.simps) simp
qed

lemma roundToDouble_exact:
  assumes "\<bar>n\<bar> \<le> 2 ^ 53"
  shows "roundToDouble n = n"
proof (cases "\<bar>n\<bar> < 2 ^ 53")
  case True
  then have "nat \<bar>n\<bar> < 2 ^ 53" by (simp add: nat_less_iff)
  then have "ulpOf (nat \<bar>n\<bar>) = 1" by (rule ulpOf_small)
  then show ?thesis
    by (simp add: roundToDouble_def Let_def sgn_if)
next
  case False
  with assms have eq: "\<bar>n\<bar> = 2 ^ 53" by simp
  then have m: "nat \<bar>n\<bar> = 2 ^ 53" by (simp add: nat_eq_iff)
  have "ulpOf (2 ^ 53) = 2" by (rule ulpOf_next) simp_all
  with m have "roundToDouble n = sgn n * 2 ^ 53"
    by (simp add: roundToDouble_def Let_def)
  with eq show ?thesis
    by (simp add: sgn_if abs_if split: if_splits)
qed

lemma roundToDouble_nonpos: "n \<le> 0 \<Longrightarrow> roundToDouble n \<le> 0"
  by (simp add: roundToDouble_def Let_def sgn_if mult_le_0_iff)

lemma jsMinusOne_exact: "1 < d \<Longrightarrow> d \<le> 2 ^ 53 \<Longrightarrow> jsMinusOne d = d - 1"
  unfolding jsMinusOne_def by (rule roundToDouble_exact) simp

lemma jsMinusOne_leaf: "d \<le> 1 \<Longrightarrow> jsMinusOne d \<le> 0"
  unfolding jsMinusOne_def by (rule roundToDouble_nonpos) simp

lemma jsMinusOne_stuck: "jsMinusOne 9007199254740996 = 9007199254740996"
proof -
  have "ulpOf 9007199254740995 = 2" by (rule ulpOf_next) simp_all
  then show ?thesis by (simp add: jsMinusOne_def roundToDouble_def Let_def)
qed

lemma jsMinusOne_skips: "jsMinusOne 9007199254740994 = 9007199254740992"
proof -
  have "ulpOf 9007199254740993 = 2" by (rule ulpOf_next) simp_all
  then show ?thesis by (simp add: jsMinusOne_def roundToDouble_def Let_def)
qed

lemma fanOut_settled:
  assumes "\<And>s q. q \<in> set qs \<Longrightarrow> f s q = (case g s q of (s', seen, r) \<Rightarrow> (s', seen, Some r))"
  shows "fanOut f p qs = (case fanOut g p qs of (seen, rs) \<Rightarrow> (seen, map Some rs))"
  using assms
proof (induction qs arbitrary: p)
  case Nil
  show ?case by simp
next
  case (Cons a qs)
  obtain p' seen r where ga: "g p a = (p', seen, r)" by (cases "g p a") auto
  obtain seen' rs where rest: "fanOut g p' qs = (seen', rs)" by (cases "fanOut g p' qs") auto
  have fa: "f p a = (p', seen, Some r)" using Cons.prems [of a p] ga by simp
  have "fanOut f p' qs = (seen', map Some rs)"
    using Cons.IH [of p'] Cons.prems rest by simp
  with fa ga rest show ?case by simp
qed

lemma those_map_Some: "those (map Some xs) = Some xs"
  by (induction xs) simp_all

lemma researchBranchFuel_agrees:
  assumes "d \<le> 2 ^ 53"
    and "1 < d \<Longrightarrow>
           deepResearchFuel fuel env (followUpQuery r q) (ceilHalf b) (d - 1) (ls @ [content r])
             (ss @ (case source r of None \<Rightarrow> [] | Some xs \<Rightarrow> map formatSource xs)) =
           Some (deepResearch env (followUpQuery r q) (ceilHalf b) (d - 1) (ls @ [content r])
             (ss @ (case source r of None \<Rightarrow> [] | Some xs \<Rightarrow> map formatSource xs)))"
    and "execute tool (question q) = Inr r"
  shows "researchBranchFuel fuel env tool b d ls ss p q =
           (case researchBranch env tool b d ls ss p q of
              (p', seen, res) \<Rightarrow> (p', seen, Some res))"
proof (cases "1 < d")
  case True
  with assms(1) have dec: "jsMinusOne d = d - 1" by (simp add: jsMinusOne_exact)
  obtain seen res where sub:
    "deepResearch env (followUpQuery r q) (ceilHalf b) (d - 1) (ls @ [content r])
       (ss @ (case source r of None \<Rightarrow> [] | Some xs \<Rightarrow> map formatSource xs)) = (seen, res)"
    by (cases "deepResearch env (followUpQuery r q) (ceilHalf b) (d - 1) (ls @ [content r])
       (ss @ (case source r of None \<Rightarrow> [] | Some xs \<Rightarrow> map formatSource xs))") auto
  with assms(2) [OF True] True show ?thesis
    by (simp add: researchBranchFuel.simps researchBranch_descend [OF assms(3) True]
          assms(3) dec processAgentResponse_def reportProgress_def Let_def)
next
  case False
  then have d: "d \<le> 1" by simp
  then have "\<not> 0 < jsMinusOne d" using jsMinusOne_leaf [OF d] by simp
  then show ?thesis
    by (simp add: researchBranchFuel.simps researchBranch_leaf [OF assms(3) d]
          assms(3) processAgentResponse_def reportProgress_def Let_def)
qed

lemma researchBranchFuel_failed:
  "execute tool (question q) = Inl e \<Longrightarrow>
   researchBranchFuel fuel env tool b d ls ss p q =
     (p, [], Some (Inr \<lparr> learnings = [], sources = [], compliance_scores = Some [] \<rparr>))"
  by (simp add: researchBranchFuel.simps)

lemma fuel_agrees:
  "d \<le> 2 ^ 53 \<Longrightarrow> nat d \<le> fuel \<Longrightarrow> 0 < fuel \<Longrightarrow>
   deepResearchFuel fuel env query b d ls ss = Some (deepResearch env query b d ls ss)"
proof (induction fuel arbitrary: query b d ls ss)
  case 0
  then show ?case by simp
next
  case (Suc fuel)
  have branch: "researchBranchFuel fuel env tool b d ls ss p q =
           (case researchBranch env tool b d ls ss p q of
              (p', seen, res) \<Rightarrow> (p', seen, Some res))" for tool p q
  proof (cases "execute tool (question q)")
    case (Inl e)
    then show ?thesis
      by (simp add: researchBranchFuel_failed researchBranch_failed)
  next
    case (Inr r)
    show ?thesis
    proof (rule researchBranchFuel_agrees [OF Suc.prems(1) _ Inr])
      assume deep: "1 < d"
      with Suc.prems have "d - 1 \<le> 2 ^ 53" and "nat (d - 1) \<le> fuel" and "0 < fuel"
        by simp_all
      then show "deepResearchFuel fuel env (followUpQuery r q) (ceilHalf b) (d - 1)
             (ls @ [content r])
             (ss @ (case source r of None \<Rightarrow> [] | Some xs \<Rightarrow> map formatSource xs)) =
           Some (deepResearch env (followUpQuery r q) (ceilHalf b) (d - 1) (ls @ [content r])
             (ss @ (case source r of None \<Rightarrow> [] | Some xs \<Rightarrow> map formatSource xs)))"
        by (rule Suc.IH)
    qed
  qed
  have fan: "fanOut (researchBranchFuel fuel env tool b d ls ss) p qs =
      (case fanOut (researchBranch env tool b d ls ss) p qs of
         (seen, rs) \<Rightarrow> (seen, map Some rs))" for tool p qs
    by (rule fanOut_settled) (rule branch)
  show ?case
  proof (cases "determineResearchTool env query")
    case (Inl e)
    then show ?thesis by (simp add: deepResearchFuel.simps(2) deepResearch.simps)
  next
    case (Inr tw)
    obtain t why where tw: "tw = (t, why)" by (cases tw) auto
    show ?thesis
    proof (cases t)
      case None
      with Inr tw show ?thesis by (simp add: deepResearchFuel.simps(2) deepResearch.simps)
    next
      case (Some tool)
      show ?thesis
      proof (cases "generateFollowUpQuestions env query (description tool) b ls")
        case (Inl e)
        with Inr tw Some show ?thesis
          by (simp add: deepResearchFuel.simps(2) deepResearch.simps)
      next
        case gen: (Inr qs)
        obtain seen rs where fo: "fanOut (researchBranch env tool b d ls ss)
            ((initialProgress b d)
               \<lparr> totalQueries := length qs,
                 currentQuery := (case qs of [] \<Rightarrow> None | q # _ \<Rightarrow> Some (question q)) \<rparr>)
            qs = (seen, rs)"
          by (cases "fanOut (researchBranch env tool b d ls ss)
            ((initialProgress b d)
               \<lparr> totalQueries := length qs,
                 currentQuery := (case qs of [] \<Rightarrow> None | q # _ \<Rightarrow> Some (question q)) \<rparr>)
            qs") auto
        show ?thesis
          using Inr tw Some gen fo
          by (simp add: deepResearchFuel.simps(2) deepResearch.simps fan those_map_Some
                reportProgress_def)
      qed
    qed
  qed
qed

section \<open>The breadth and the depth that the snapshots show\<close>

lemma first_snapshot:
  "fst (deepResearch env query b d ls ss) = [] \<or>
   (totalBreadth (hd (fst (deepResearch env query b d ls ss))) = b \<and>
    currentBreadth (hd (fst (deepResearch env query b d ls ss))) = b \<and>
    totalDepth (hd (fst (deepResearch env query b d ls ss))) = d \<and>
    currentDepth (hd (fst (deepResearch env query b d ls ss))) = d)"
  by (simp add: deepResearch_observed initialProgress_def
        split: sum.splits option.splits prod.splits)

lemma fanOut_invariant:
  assumes "I p"
    and "\<And>s q s' seen r. q \<in> set qs \<Longrightarrow> I s \<Longrightarrow> f s q = (s', seen, r) \<Longrightarrow>
           I s' \<and> (\<forall>x \<in> set seen. P x)"
  shows "\<forall>x \<in> set (fst (fanOut f p qs)). P x"
  using assms
proof (induction qs arbitrary: p)
  case Nil
  show ?case by simp
next
  case (Cons a qs)
  obtain p' seen r where fa: "f p a = (p', seen, r)" by (cases "f p a") auto
  obtain seen' rs where rest: "fanOut f p' qs = (seen', rs)" by (cases "fanOut f p' qs") auto
  from Cons.prems(2) [of a p p' seen r] Cons.prems(1) fa
  have p': "I p'" and seen: "\<forall>x \<in> set seen. P x" by simp_all
  have "\<forall>x \<in> set (fst (fanOut f p' qs)). P x"
  proof (rule Cons.IH [OF p'])
    fix s q s' seen r
    assume "q \<in> set qs" "I s" "f s q = (s', seen, r)"
    then show "I s' \<and> (\<forall>x \<in> set seen. P x)"
      using Cons.prems(2) [of q s s' seen r] by simp
  qed
  with seen fa rest show ?case by auto
qed

lemma breadthWithin_weaken:
  "breadthWithin b' s \<Longrightarrow> b' \<le> b \<Longrightarrow> breadthWithin b s"
  by (simp add: breadthWithin_def)

lemma researchBranchFuel_breadth:
  assumes "1 \<le> b" and "breadthWithin b p"
    and "researchBranchFuel n env tool b d ls ss p q = (p', seen, res)"
    and "\<And>query' d' ls' ss' sub r.
           deepResearchFuel n env query' (ceilHalf b) d' ls' ss' = Some (sub, r) \<Longrightarrow>
           \<forall>x \<in> set sub. breadthWithin (ceilHalf b) x"
  shows "breadthWithin b p' \<and> (\<forall>x \<in> set seen. breadthWithin b x)"
proof (cases "execute tool (question q)")
  case (Inl e)
  with assms(2,3) show ?thesis by (simp add: researchBranchFuel_failed)
next
  case (Inr r)
  have half: "1 \<le> ceilHalf b" "ceilHalf b \<le> b" using ceilHalf_bounds [OF assms(1)] by simp_all
  show ?thesis
  proof (cases "0 < jsMinusOne d")
    case False
    with assms(2,3) Inr show ?thesis
      by (auto simp: researchBranchFuel.simps processAgentResponse_def reportProgress_def
            Let_def breadthWithin_def)
  next
    case True
    let ?p = "p\<lparr> currentDepth := jsMinusOne d, currentBreadth := ceilHalf b,
                  completedQueries := completedQueries p + 1,
                  currentQuery := Some (question q) \<rparr>"
    have own: "breadthWithin b ?p" using assms(2) half by (simp add: breadthWithin_def)
    show ?thesis
    proof (cases "deepResearchFuel n env (followUpQuery r q) (ceilHalf b) (jsMinusOne d)
                    (ls @ [content r])
                    (ss @ (case source r of None \<Rightarrow> [] | Some xs \<Rightarrow> map formatSource xs))")
      case None
      with assms(3) Inr True own show ?thesis
        by (auto simp: researchBranchFuel.simps processAgentResponse_def reportProgress_def
              Let_def)
    next
      case (Some run)
      obtain sub r' where run: "run = (sub, r')" by (cases run) auto
      from assms(4) [OF Some [unfolded run]]
      have "\<forall>x \<in> set sub. breadthWithin b x"
        using half(2) breadthWithin_weaken by blast
      with assms(3) Inr True own Some run show ?thesis
        by (auto simp: researchBranchFuel.simps processAgentResponse_def reportProgress_def
              Let_def)
    qed
  qed
qed

lemma deepResearchFuel_breadth:
  "1 \<le> b \<Longrightarrow> deepResearchFuel n env query b d ls ss = Some (seen, res) \<Longrightarrow>
   \<forall>x \<in> set seen. breadthWithin b x"
proof (induction n arbitrary: query b d ls ss seen res)
  case 0
  then show ?case by simp
next
  case (Suc n)
  have half: "1 \<le> ceilHalf b" using ceilHalf_bounds [OF Suc.prems(1)] by simp
  show ?case
  proof (cases "determineResearchTool env query")
    case (Inl e)
    with Suc.prems(2) show ?thesis by (simp add: deepResearchFuel.simps(2))
  next
    case (Inr tw)
    obtain t why where tw: "tw = (t, why)" by (cases tw) auto
    show ?thesis
    proof (cases t)
      case None
      with Suc.prems(2) Inr tw show ?thesis by (simp add: deepResearchFuel.simps(2))
    next
      case (Some tool)
      show ?thesis
      proof (cases "generateFollowUpQuestions env query (description tool) b ls")
        case (Inl e)
        with Suc.prems(2) Inr tw Some show ?thesis by (simp add: deepResearchFuel.simps(2))
      next
        case gen: (Inr qs)
        let ?p1 = "(initialProgress b d)
                     \<lparr> totalQueries := length qs,
                       currentQuery := (case qs of [] \<Rightarrow> None
                                        | q # _ \<Rightarrow> Some (question q)) \<rparr>"
        have p1: "breadthWithin b ?p1"
          using Suc.prems(1) by (simp add: breadthWithin_def initialProgress_def)
        have fan: "\<forall>x \<in> set (fst (fanOut (researchBranchFuel n env tool b d ls ss) ?p1 qs)).
                     breadthWithin b x"
        proof (rule fanOut_invariant [where I = "breadthWithin b", OF p1])
          fix s q s' seen r
          assume "q \<in> set qs" and s: "breadthWithin b s"
            and br: "researchBranchFuel n env tool b d ls ss s q = (s', seen, r)"
          show "breadthWithin b s' \<and> (\<forall>x \<in> set seen. breadthWithin b x)"
          proof (rule researchBranchFuel_breadth [OF Suc.prems(1) s br])
            fix query' d' ls' ss' sub r'
            assume "deepResearchFuel n env query' (ceilHalf b) d' ls' ss' = Some (sub, r')"
            with half show "\<forall>x \<in> set sub. breadthWithin (ceilHalf b) x"
              by (rule Suc.IH)
          qed
        qed
        obtain seen2 results where fo:
          "fanOut (researchBranchFuel n env tool b d ls ss) ?p1 qs = (seen2, results)"
          by (cases "fanOut (researchBranchFuel n env tool b d ls ss) ?p1 qs") auto
        from Suc.prems(2) Inr tw Some gen fo have "seen = ?p1 # seen2"
          by (auto simp: deepResearchFuel.simps(2) reportProgress_def split: option.splits)
        with p1 fan fo show ?thesis by simp
      qed
    qed
  qed
qed

lemma deepResearch_breadth:
  assumes "1 \<le> b" and "d \<le> 2 ^ 53"
  shows "\<forall>x \<in> set (fst (deepResearch env query b d ls ss)). breadthWithin b x"
proof -
  have "deepResearchFuel (Suc (nat d)) env query b d ls ss =
          Some (deepResearch env query b d ls ss)"
    by (rule fuel_agrees [OF assms(2)]) simp_all
  then have "deepResearchFuel (Suc (nat d)) env query b d ls ss =
          Some (fst (deepResearch env query b d ls ss), snd (deepResearch env query b d ls ss))"
    by simp
  from deepResearchFuel_breadth [OF assms(1) this] show ?thesis .
qed

lemma promiseAll_all_resolved:
  "\<forall>p \<in> set ps. \<exists>v. p = Inr v \<Longrightarrow> \<exists>vs. promiseAll ps = Inr vs"
proof (induction ps)
  case Nil
  show ?case by simp
next
  case (Cons p ps)
  then obtain v where "p = Inr v" by auto
  moreover from Cons obtain vs where "promiseAll ps = Inr vs" by auto
  ultimately show ?case by simp
qed

lemma node_without_descent_resolves:
  assumes "determineResearchTool env query = Inr (Some tool, why)"
    and "generateFollowUpQuestions env query (description tool) b ls = Inr qs"
    and "d \<le> 1"
  shows "\<exists>res. snd (deepResearch env query b d ls ss) = Inr res"
proof -
  have "\<forall>p \<in> set (map (branchResult env tool b d ls ss) qs). \<exists>v. p = Inr v"
  proof
    fix p assume "p \<in> set (map (branchResult env tool b d ls ss) qs)"
    then obtain q where p: "p = branchResult env tool b d ls ss q" by auto
    show "\<exists>v. p = Inr v"
    proof (cases "execute tool (question q)")
      case (Inl e)
      then show ?thesis by (simp add: p branchResult_failed)
    next
      case (Inr r)
      from branchResult_leaf [OF Inr assms(3)] show ?thesis by (simp add: p)
    qed
  qed
  then obtain vs where "promiseAll (map (branchResult env tool b d ls ss) qs) = Inr vs"
    using promiseAll_all_resolved by blast
  with assms(1,2) show ?thesis by (simp add: deepResearch_result)
qed

section \<open>The concrete catalogue, evaluated\<close>

lemma steady_select:
  "determineResearchTool (steadyEnv qs) query = Inr (Some echoTool, ''only tool'')"
  by (simp add: determineResearchTool_def steadyEnv_def)

lemma steady_generate:
  "generateFollowUpQuestions (steadyEnv qs) query toolDescription n ls = Inr (slice0 n qs)"
  by (simp add: generateFollowUpQuestions_def steadyEnv_def)

lemma brittle_select:
  "determineResearchTool (brittleEnv qs) query = Inr (Some echoTool, ''only tool'')"
  by (simp add: determineResearchTool_def brittleEnv_def)

lemma brittle_generate:
  "generateFollowUpQuestions (brittleEnv qs) query toolDescription n ls =
     (if ls = [] then Inr (slice0 n qs) else Inl (OracleFailure ''no object generated''))"
  by (simp add: generateFollowUpQuestions_def brittleEnv_def)

lemma echo_bad: "execute echoTool (question (ask ''bad'')) = Inl (ToolFailure ''HTTP error'')"
  by (simp add: echoTool_def ask_def)

lemma echo_A:
  "execute echoTool (question (ask ''A'')) =
     Inr \<lparr> content = ''A'', source = Some [\<lparr> file_name = ''A'', file_path = ''/kb'' \<rparr>],
           compliance_score = Some ''0.9'' \<rparr>"
  by (simp add: echoTool_def ask_def)

lemma echo_B:
  "execute echoTool (question (ask ''B'')) =
     Inr \<lparr> content = ''B'', source = Some [\<lparr> file_name = ''B'', file_path = ''/kb'' \<rparr>],
           compliance_score = Some '''' \<rparr>"
  by (simp add: echoTool_def ask_def)

lemma echo_Q:
  "execute echoTool (question (ask ''Q'')) =
     Inr \<lparr> content = ''Q'', source = Some [\<lparr> file_name = ''Q'', file_path = ''/kb'' \<rparr>],
           compliance_score = None \<rparr>"
  by (simp add: echoTool_def ask_def)

lemma never_returns:
  "deepResearchFuel n (steadyEnv [ask ''Q'']) query 1 9007199254740996 ls ss = None"
proof (induction n arbitrary: query ls ss)
  case 0
  show ?case by simp
next
  case (Suc n)
  have branch: "snd (snd (researchBranchFuel n (steadyEnv [ask ''Q'']) echoTool 1
                            9007199254740996 ls ss p (ask ''Q''))) = None" for p
    by (simp add: researchBranchFuel.simps echo_Q processAgentResponse_def jsMinusOne_stuck
          ceilHalf_def reportProgress_def Suc.IH Let_def)
  obtain p' seen where b: "researchBranchFuel n (steadyEnv [ask ''Q'']) echoTool 1
      9007199254740996 ls ss
      ((initialProgress 1 9007199254740996)
         \<lparr> totalQueries := Suc 0, currentQuery := Some (question (ask ''Q'')) \<rparr>) (ask ''Q'') =
      (p', seen, None)"
    using branch
    by (metis prod.collapse)
  show ?case
    by (simp add: deepResearchFuel.simps(2) steady_select steady_generate slice0_def
          reportProgress_def b Let_def)
qed

section \<open>Properties of the engine\<close>

text \<open>
  C1. When an oracle call fails at a node that the run reaches (the failing call is
  made by the branches of a chain of calls starting at the root), the failing node
  rejects, and so does the root call: the caller receives a rejection and no aggregated
  result.
\<close>

theorem oracle_failure_rejects_the_run:
  assumes "(callsDirectly env)\<^sup>*\<^sup>* (query, b, d, ls, ss) node"
    and "oracleFails env node"
  shows "(\<exists>e. outcome env node = Inl e) \<and>
         (\<exists>e. snd (deepResearch env query b d ls ss) = Inl e)"
proof -
  have node: "\<exists>e. outcome env node = Inl e"
    by (rule oracleFails_rejects [OF assms(2)])
  from rejection_reaches_ancestors [OF assms(1) node]
  have "\<exists>e. snd (deepResearch env query b d ls ss) = Inl e"
    by (simp add: outcome_def)
  with node show ?thesis by blast
qed

theorem oracle_failure_rejects_the_run_witness:
  "callsDirectly (brittleEnv [ask ''Q'']) (''topic'', 1, 2, [], [])
     (followUpQuery \<lparr> content = ''Q'',
                       source = Some [\<lparr> file_name = ''Q'', file_path = ''/kb'' \<rparr>],
                       compliance_score = None \<rparr> (ask ''Q''),
      1, 1, [''Q''], [''Q (/kb)'']) \<and>
   oracleFails (brittleEnv [ask ''Q''])
     (followUpQuery \<lparr> content = ''Q'',
                       source = Some [\<lparr> file_name = ''Q'', file_path = ''/kb'' \<rparr>],
                       compliance_score = None \<rparr> (ask ''Q''),
      1, 1, [''Q''], [''Q (/kb)'']) \<and>
   (\<exists>e. snd (deepResearch (brittleEnv [ask ''Q'']) ''topic'' 1 2 [] []) = Inl e)"
proof -
  let ?r = "\<lparr> content = ''Q'', source = Some [\<lparr> file_name = ''Q'', file_path = ''/kb'' \<rparr>],
              compliance_score = None \<rparr>"
  let ?child = "(followUpQuery ?r (ask ''Q''), 1::int, 1::int, [''Q''], [''Q (/kb)''])"
  have gen: "generateFollowUpQuestions (brittleEnv [ask ''Q'']) ''topic''
               (description echoTool) 1 [] = Inr [ask ''Q'']"
    by (simp add: brittle_generate slice0_def)
  have d: "(1::int) < 2" by simp
  have mem: "ask ''Q'' \<in> set [ask ''Q'']" by simp
  from callsDirectly_intro [OF brittle_select gen mem echo_Q d, of "[]"]
  have call: "callsDirectly (brittleEnv [ask ''Q'']) (''topic'', 1, 2, [], []) ?child"
    by (simp add: ceilHalf_def formatSource_def)
  have fails: "oracleFails (brittleEnv [ask ''Q'']) ?child"
    by (simp add: oracleFails_def brittleEnv_def)
  from call have reach:
    "(callsDirectly (brittleEnv [ask ''Q'']))\<^sup>*\<^sup>* (''topic'', 1, 2, [], []) ?child"
    by (rule r_into_rtranclp)
  from oracle_failure_rejects_the_run [OF reach fails] call fails
  show ?thesis by blast
qed

text \<open>
  C2, as amended. When the tool call of the follow-up question number \<open>i\<close> throws, that
  branch resolves to the empty result and leaves \<open>progress\<close> untouched. If the other
  branches resolve (to \<open>rs ! j\<close>), the node resolves to the aggregation of their results
  together with the empty one, and every learning, source and score of every other
  branch is in it. The node rejects only with the rejection of another branch, that is of
  the recursive call of a branch whose own tool call succeeded; a node that makes no
  recursive call (\<open>depth \<le> 1\<close>) always resolves.
\<close>

theorem branch_failure_is_isolated:
  assumes "determineResearchTool env query = Inr (Some tool, why)"
    and "generateFollowUpQuestions env query (description tool) b ls = Inr qs"
    and "i < length qs"
    and "execute tool (question (qs ! i)) = Inl e"
  shows "researchBranch env tool b d ls ss p (qs ! i) =
           (p, [], Inr \<lparr> learnings = [], sources = [], compliance_scores = Some [] \<rparr>) \<and>
         (length rs = length qs \<and>
          (\<forall>j < length qs. j \<noteq> i \<longrightarrow> branchResult env tool b d ls ss (qs ! j) = Inr (rs ! j))
          \<longrightarrow>
            snd (deepResearch env query b d ls ss) = Inr (combineResults (rs[i := emptyResult])) \<and>
            (\<forall>j < length qs. j \<noteq> i \<longrightarrow>
               set (learnings (rs ! j)) \<subseteq> set (learnings (combineResults (rs[i := emptyResult]))) \<and>
               set (sources (rs ! j)) \<subseteq> set (sources (combineResults (rs[i := emptyResult]))) \<and>
               (\<forall>cs. compliance_scores (rs ! j) = Some cs \<longrightarrow>
                  (\<exists>all. compliance_scores (combineResults (rs[i := emptyResult])) = Some all \<and>
                         set cs \<subseteq> set all)))) \<and>
         (\<forall>e'. snd (deepResearch env query b d ls ss) = Inl e' \<longrightarrow>
            (\<exists>j < length qs. j \<noteq> i \<and> 1 < d \<and>
               (\<exists>r. execute tool (question (qs ! j)) = Inr r \<and>
                  snd (deepResearch env (followUpQuery r (qs ! j)) (ceilHalf b) (d - 1)
                         (ls @ [content r])
                         (ss @ (case source r of None \<Rightarrow> []
                                | Some xs \<Rightarrow> map formatSource xs))) = Inl e') \<and>
               branchResult env tool b d ls ss (qs ! j) = Inl e')) \<and>
         (d \<le> 1 \<longrightarrow> (\<exists>res. snd (deepResearch env query b d ls ss) = Inr res))"
proof (intro conjI impI allI)
  show "researchBranch env tool b d ls ss p (qs ! i) =
          (p, [], Inr \<lparr> learnings = [], sources = [], compliance_scores = Some [] \<rparr>)"
    by (rule researchBranch_failed [OF assms(4)])
next
  assume h: "length rs = length qs \<and>
    (\<forall>j < length qs. j \<noteq> i \<longrightarrow> branchResult env tool b d ls ss (qs ! j) = Inr (rs ! j))"
  have "map (branchResult env tool b d ls ss) qs = map Inr (rs[i := emptyResult])"
  proof (rule nth_equalityI)
    show "length (map (branchResult env tool b d ls ss) qs) =
          length (map Inr (rs[i := emptyResult]))"
      using h by simp
  next
    fix j assume "j < length (map (branchResult env tool b d ls ss) qs)"
    then have j: "j < length qs" by simp
    show "map (branchResult env tool b d ls ss) qs ! j = map Inr (rs[i := emptyResult]) ! j"
    proof (cases "j = i")
      case True
      with j h assms(4) show ?thesis by (simp add: branchResult_failed)
    next
      case False
      with j h show ?thesis by simp
    qed
  qed
  from deepResearch_joined [OF assms(1,2) this]
  show "snd (deepResearch env query b d ls ss) = Inr (combineResults (rs[i := emptyResult]))" .
next
  fix j
  assume h: "length rs = length qs \<and>
    (\<forall>j < length qs. j \<noteq> i \<longrightarrow> branchResult env tool b d ls ss (qs ! j) = Inr (rs ! j))"
    and j: "j < length qs" and ne: "j \<noteq> i"
  have mem: "rs ! j \<in> set (rs[i := emptyResult])"
    using h j ne by (metis length_list_update nth_list_update_neq nth_mem)
  show "set (learnings (rs ! j)) \<subseteq> set (learnings (combineResults (rs[i := emptyResult])))"
    using mem by (auto simp: combineResults_def set_arrayFromSet)
  show "set (sources (rs ! j)) \<subseteq> set (sources (combineResults (rs[i := emptyResult])))"
    using mem by (auto simp: combineResults_def set_arrayFromSet)
  fix cs assume "compliance_scores (rs ! j) = Some cs"
  with mem show "\<exists>all. compliance_scores (combineResults (rs[i := emptyResult])) = Some all \<and>
                       set cs \<subseteq> set all"
    by (force simp: combineResults_def)
next
  fix e' assume rej: "snd (deepResearch env query b d ls ss) = Inl e'"
  have "promiseAll (map (branchResult env tool b d ls ss) qs) = Inl e'"
    using rej assms(1,2) by (simp add: deepResearch_result split: sum.splits)
  then have "Inl e' \<in> set (map (branchResult env tool b d ls ss) qs)"
    by (rule promiseAll_Inl_from)
  then obtain j where j: "j < length qs" "branchResult env tool b d ls ss (qs ! j) = Inl e'"
    by (auto simp: in_set_conv_nth)
  have ne: "j \<noteq> i" using j(2) assms(4) by (auto simp: branchResult_failed)
  obtain r where ex: "execute tool (question (qs ! j)) = Inr r"
    using j(2) by (cases "execute tool (question (qs ! j))") (auto simp: branchResult_failed)
  have d: "1 < d"
  proof (rule ccontr)
    assume "\<not> 1 < d"
    then have "d \<le> 1" by simp
    from branchResult_leaf [OF ex this] j(2) show False by simp
  qed
  from branchResult_descend [OF ex d] j(2)
  have "snd (deepResearch env (followUpQuery r (qs ! j)) (ceilHalf b) (d - 1)
               (ls @ [content r])
               (ss @ (case source r of None \<Rightarrow> [] | Some xs \<Rightarrow> map formatSource xs))) = Inl e'"
    by simp
  with j ne d ex
  show "\<exists>j < length qs. j \<noteq> i \<and> 1 < d \<and>
               (\<exists>r. execute tool (question (qs ! j)) = Inr r \<and>
                  snd (deepResearch env (followUpQuery r (qs ! j)) (ceilHalf b) (d - 1)
                         (ls @ [content r])
                         (ss @ (case source r of None \<Rightarrow> []
                                | Some xs \<Rightarrow> map formatSource xs))) = Inl e') \<and>
               branchResult env tool b d ls ss (qs ! j) = Inl e'"
    by blast
next
  assume "d \<le> 1"
  from node_without_descent_resolves [OF assms(1,2) this]
  show "\<exists>res. snd (deepResearch env query b d ls ss) = Inr res" .
qed

theorem branch_failure_is_isolated_witness:
  "researchBranch (steadyEnv [ask ''A'', ask ''bad'', ask ''B'']) echoTool 3 1
      [''known''] [] (initialProgress 3 1) (ask ''bad'') =
     (initialProgress 3 1, [],
      Inr \<lparr> learnings = [], sources = [], compliance_scores = Some [] \<rparr>) \<and>
   snd (deepResearch (steadyEnv [ask ''A'', ask ''bad'', ask ''B'']) ''topic'' 3 1
          [''known''] []) =
     Inr \<lparr> learnings = [''known'', ''A'', ''B''], sources = [''A (/kb)'', ''B (/kb)''],
           compliance_scores = Some [''0.9''] \<rparr> \<and>
   snd (deepResearch (brittleEnv [ask ''bad'', ask ''Q'']) ''topic'' 2 2 [] []) =
     Inl (OracleFailure ''no object generated'') \<and>
   (\<exists>j < length [ask ''bad'', ask ''Q'']. 0 < j \<and>
      branchResult (brittleEnv [ask ''bad'', ask ''Q'']) echoTool 2 2 [] []
        ([ask ''bad'', ask ''Q''] ! j) = Inl (OracleFailure ''no object generated''))"
proof -
  let ?qs = "[ask ''A'', ask ''bad'', ask ''B'']"
  let ?rA = "\<lparr> learnings = [''known'', ''A''], sources = [''A (/kb)''],
               compliance_scores = Some [''0.9''] \<rparr>"
  let ?rB = "\<lparr> learnings = [''known'', ''B''], sources = [''B (/kb)''],
               compliance_scores = None \<rparr>"
  have gen: "generateFollowUpQuestions (steadyEnv ?qs) ''topic''
               (description echoTool) 3 [''known''] = Inr ?qs"
    by (simp add: steady_generate slice0_def)
  have i: "(1::nat) < length ?qs" by simp
  have bad: "execute echoTool (question (?qs ! 1)) = Inl (ToolFailure ''HTTP error'')"
    by (simp add: echo_bad)
  have others: "length [?rA, ?rA, ?rB] = length ?qs \<and>
      (\<forall>j < length ?qs. j \<noteq> 1 \<longrightarrow>
         branchResult (steadyEnv ?qs) echoTool 3 1 [''known''] [] (?qs ! j) =
           Inr ([?rA, ?rA, ?rB] ! j))"
    by (simp add: less_Suc_eq branchResult_leaf [OF echo_A] branchResult_leaf [OF echo_B]
          formatSource_def)
  have val: "combineResults ([?rA, ?rA, ?rB][1 := emptyResult]) =
      \<lparr> learnings = [''known'', ''A'', ''B''], sources = [''A (/kb)'', ''B (/kb)''],
        compliance_scores = Some [''0.9''] \<rparr>"
    by (simp add: combineResults_def arrayFromSet_def setAdd_def emptyResult_def)
  let ?ps = "[ask ''bad'', ask ''Q'']"
  have gen2: "generateFollowUpQuestions (brittleEnv ?ps) ''topic''
               (description echoTool) 2 [] = Inr ?ps"
    by (simp add: brittle_generate slice0_def)
  have i2: "(0::nat) < length ?ps" by simp
  have bad2: "execute echoTool (question (?ps ! 0)) = Inl (ToolFailure ''HTTP error'')"
    by (simp add: echo_bad)
  have d2: "(1::int) < 2" by simp
  have deep: "branchResult (brittleEnv ?ps) echoTool 2 2 [] [] (ask ''Q'') =
                Inl (OracleFailure ''no object generated'')"
    by (simp add: branchResult_descend [OF echo_Q d2] deepResearch_result brittle_select
          brittle_generate)
  have rej: "snd (deepResearch (brittleEnv ?ps) ''topic'' 2 2 [] []) =
               Inl (OracleFailure ''no object generated'')"
    using deep
    by (simp add: deepResearch_result brittle_select gen2 branchResult_failed [OF echo_bad])
  from branch_failure_is_isolated [where d = 2 and ss = "[]" and p = "initialProgress 2 2"
      and rs = "[]", OF brittle_select gen2 i2 bad2] rej
  have part2: "\<exists>j < length ?ps. 0 < j \<and>
      branchResult (brittleEnv ?ps) echoTool 2 2 [] [] (?ps ! j) =
        Inl (OracleFailure ''no object generated'')"
    by auto
  from branch_failure_is_isolated [where d = 1 and ss = "[]" and p = "initialProgress 3 1"
      and rs = "[?rA, ?rA, ?rB]", OF steady_select gen i bad] others val rej part2
  show ?thesis by simp
qed

text \<open>
  C2 as stated fails when another branch descends into a call whose oracle fails: with
  the questions \<open>bad\<close> and \<open>Q\<close> at depth \<open>2\<close>, the tool call for \<open>bad\<close> throws and the one for
  \<open>Q\<close> succeeds, the recursive call for \<open>Q\<close> fails to generate questions and makes no
  tool call, and the run rejects.
\<close>

theorem branch_failure_is_isolated_counterexample:
  "generateFollowUpQuestions (brittleEnv [ask ''bad'', ask ''Q'']) ''topic''
     (description echoTool) 2 [] = Inr [ask ''bad'', ask ''Q''] \<and>
   execute echoTool (question (ask ''bad'')) = Inl (ToolFailure ''HTTP error'') \<and>
   execute echoTool (question (ask ''Q'')) =
     Inr \<lparr> content = ''Q'', source = Some [\<lparr> file_name = ''Q'', file_path = ''/kb'' \<rparr>],
           compliance_score = None \<rparr> \<and>
   deepResearch (brittleEnv [ask ''bad'', ask ''Q''])
     (followUpQuery \<lparr> content = ''Q'',
                       source = Some [\<lparr> file_name = ''Q'', file_path = ''/kb'' \<rparr>],
                       compliance_score = None \<rparr> (ask ''Q''))
     1 1 [''Q''] [''Q (/kb)''] = ([], Inl (OracleFailure ''no object generated'')) \<and>
   snd (deepResearch (brittleEnv [ask ''bad'', ask ''Q'']) ''topic'' 2 2 [] []) =
     Inl (OracleFailure ''no object generated'')"
proof -
  let ?ps = "[ask ''bad'', ask ''Q'']"
  have gen: "generateFollowUpQuestions (brittleEnv ?ps) ''topic''
               (description echoTool) 2 [] = Inr ?ps"
    by (simp add: brittle_generate slice0_def)
  have d2: "(1::int) < 2" by simp
  have child: "deepResearch (brittleEnv ?ps)
     (followUpQuery \<lparr> content = ''Q'',
                       source = Some [\<lparr> file_name = ''Q'', file_path = ''/kb'' \<rparr>],
                       compliance_score = None \<rparr> (ask ''Q''))
     1 1 [''Q''] [''Q (/kb)''] = ([], Inl (OracleFailure ''no object generated''))"
    by (simp add: deepResearch.simps brittle_select brittle_generate)
  have deep: "branchResult (brittleEnv ?ps) echoTool 2 2 [] [] (ask ''Q'') =
                Inl (OracleFailure ''no object generated'')"
    by (simp add: branchResult_descend [OF echo_Q d2] deepResearch_result brittle_select
          brittle_generate)
  have rej: "snd (deepResearch (brittleEnv ?ps) ''topic'' 2 2 [] []) =
               Inl (OracleFailure ''no object generated'')"
    using deep
    by (simp add: deepResearch_result brittle_select gen branchResult_failed [OF echo_bad])
  from gen echo_bad echo_Q child rej show ?thesis by simp
qed

text \<open>
  C3, as amended. The \<open>completedQueries\<close> of the snapshots handed to the observer during
  a call of \<open>deepResearch\<close> never decrease exactly when none of the recursive calls made
  by the call's branches hands the observer a snapshot; in particular they never
  decrease in a run that makes no recursive call (\<open>depth \<le> 1\<close>). (Every call counts in
  a \<open>progress\<close> object of its own, which starts at \<open>0\<close>, and a branch reports a count of
  at least \<open>1\<close> before it makes its recursive call.)
\<close>

theorem completedQueries_monotone_without_descent:
  "(sorted (map completedQueries (observed env c)) \<longleftrightarrow>
      (\<forall>c' \<in> set (recursiveCalls env c). observed env c' = [])) \<and>
   (d \<le> 1 \<longrightarrow> sorted (map completedQueries (fst (deepResearch env query b d ls ss))))"
proof (intro conjI iffI impI)
  assume s: "sorted (map completedQueries (observed env c))"
  show "\<forall>c' \<in> set (recursiveCalls env c). observed env c' = []"
  proof (rule ccontr)
    assume "\<not> (\<forall>c' \<in> set (recursiveCalls env c). observed env c' = [])"
    then obtain c' where "callsDirectly env c c'" and "observed env c' \<noteq> []"
      by (auto simp: callsDirectly_def)
    from descent_breaks_monotonicity [OF this] s show False by simp
  qed
next
  assume "\<forall>c' \<in> set (recursiveCalls env c). observed env c' = []"
  then show "sorted (map completedQueries (observed env c))"
    by (rule quiet_calls_keep_monotonicity)
next
  assume "d \<le> 1"
  from quiet_calls_keep_monotonicity [OF leaf_level_is_quiet [OF this]]
  show "sorted (map completedQueries (fst (deepResearch env query b d ls ss)))"
    by (simp add: observed_def)
qed

theorem completedQueries_monotone_without_descent_witness:
  "map completedQueries
     (fst (deepResearch (steadyEnv [ask ''A'', ask ''bad'', ask ''B'']) ''topic'' 3 1 [] [])) =
     [0, 1, 2] \<and>
   sorted (map completedQueries
     (fst (deepResearch (steadyEnv [ask ''A'', ask ''bad'', ask ''B'']) ''topic'' 3 1 [] []))) \<and>
   recursiveCalls (brittleEnv [ask ''Q'']) (''topic'', 1, 2, [], []) =
     [(followUpQuery \<lparr> content = ''Q'',
                        source = Some [\<lparr> file_name = ''Q'', file_path = ''/kb'' \<rparr>],
                        compliance_score = None \<rparr> (ask ''Q''),
       1, 1, [''Q''], [''Q (/kb)''])] \<and>
   observed (brittleEnv [ask ''Q''])
     (followUpQuery \<lparr> content = ''Q'',
                       source = Some [\<lparr> file_name = ''Q'', file_path = ''/kb'' \<rparr>],
                       compliance_score = None \<rparr> (ask ''Q''),
      1, 1, [''Q''], [''Q (/kb)'']) = [] \<and>
   sorted (map completedQueries (observed (brittleEnv [ask ''Q'']) (''topic'', 1, 2, [], [])))"
proof -
  let ?env = "steadyEnv [ask ''A'', ask ''bad'', ask ''B'']"
  let ?r = "\<lparr> content = ''Q'', source = Some [\<lparr> file_name = ''Q'', file_path = ''/kb'' \<rparr>],
              compliance_score = None \<rparr>"
  let ?child = "(followUpQuery ?r (ask ''Q''), 1::int, 1::int, [''Q''], [''Q (/kb)''])"
  have d: "(1::int) \<le> 1" by simp
  have run: "map completedQueries (fst (deepResearch ?env ''topic'' 3 1 [] [])) = [0, 1, 2]"
    by (simp add: deepResearch_observed steady_select steady_generate slice0_def
          researchBranch_leaf [OF echo_A d] researchBranch_leaf [OF echo_B d]
          researchBranch_failed [OF echo_bad] initialProgress_def)
  have gen: "generateFollowUpQuestions (brittleEnv [ask ''Q'']) ''topic''
               (description echoTool) 1 [] = Inr [ask ''Q'']"
    by (simp add: brittle_generate slice0_def)
  have calls: "recursiveCalls (brittleEnv [ask ''Q'']) (''topic'', 1, 2, [], []) = [?child]"
    by (simp add: recursiveCalls_selected [OF brittle_select gen] echo_Q ceilHalf_def
          formatSource_def)
  have quiet: "observed (brittleEnv [ask ''Q'']) ?child = []"
    by (simp add: observed_def deepResearch_observed brittle_select brittle_generate)
  then have all_quiet: "\<forall>c' \<in> set (recursiveCalls (brittleEnv [ask ''Q''])
                                        (''topic'', 1, 2, [], [])).
                          observed (brittleEnv [ask ''Q'']) c' = []"
    by (simp add: calls)
  from completedQueries_monotone_without_descent
         [of "brittleEnv [ask ''Q'']" "(''topic'', 1, 2, [], [])"]
       completedQueries_monotone_without_descent
         [where env = ?env and d = 1 and query = "''topic''" and b = 3 and ls = "[]"
            and ss = "[]"]
       d all_quiet run calls quiet
  show ?thesis by simp
qed

text \<open>
  C3 as stated fails as soon as one branch descends: with one follow-up question and
  depth \<open>2\<close> the observer is handed \<open>completedQueries\<close> \<open>0\<close> and \<open>1\<close> by the root call and
  then \<open>0\<close> and \<open>1\<close> again by the recursive call.
\<close>

theorem completedQueries_monotone_counterexample:
  "map completedQueries (fst (deepResearch (steadyEnv [ask ''Q'']) ''topic'' 1 2 [] [])) =
     [0, 1, 0, 1] \<and>
   \<not> sorted (map completedQueries
               (fst (deepResearch (steadyEnv [ask ''Q'']) ''topic'' 1 2 [] [])))"
proof -
  have d1: "(1::int) \<le> 1" and d2: "(1::int) < 2" by simp_all
  have "map completedQueries (fst (deepResearch (steadyEnv [ask ''Q'']) ''topic'' 1 2 [] [])) =
     [0, 1, 0, 1]"
    by (simp add: deepResearch_observed steady_select steady_generate slice0_def ceilHalf_def
          researchBranch_descend [OF echo_Q d2] researchBranch_leaf [OF echo_Q d1]
          initialProgress_def)
  then show ?thesis by simp
qed

text \<open>
  C4. When every branch of the fan-out has resolved (to the results \<open>rs\<close>, in the order of
  the questions), the node resolves to the aggregation of \<open>rs\<close>: its learnings and its
  sources have no duplicates and have exactly the members of the branches' learnings and
  sources (so that their number is the number of distinct strings, in whatever order the
  branches delivered them), and its compliance scores are the concatenation of the
  branches' scores, duplicates kept.
\<close>

theorem aggregation_deduplicates:
  assumes "determineResearchTool env query = Inr (Some tool, why)"
    and "generateFollowUpQuestions env query (description tool) b ls = Inr qs"
    and "map (branchResult env tool b d ls ss) qs = map Inr rs"
  shows "snd (deepResearch env query b d ls ss) = Inr (combineResults rs) \<and>
         distinct (learnings (combineResults rs)) \<and>
         set (learnings (combineResults rs)) = set (concat (map learnings rs)) \<and>
         length (learnings (combineResults rs)) = card (set (concat (map learnings rs))) \<and>
         distinct (sources (combineResults rs)) \<and>
         set (sources (combineResults rs)) = set (concat (map sources rs)) \<and>
         length (sources (combineResults rs)) = card (set (concat (map sources rs))) \<and>
         compliance_scores (combineResults rs) =
           Some (concat (map (\<lambda>r. case compliance_scores r of None \<Rightarrow> [] | Some cs \<Rightarrow> cs) rs))"
proof -
  have "snd (deepResearch env query b d ls ss) = Inr (combineResults rs)"
    by (rule deepResearch_joined [OF assms])
  moreover have "distinct (learnings (combineResults rs))"
    and "distinct (sources (combineResults rs))"
    by (simp_all add: combineResults_def distinct_arrayFromSet)
  moreover have "set (learnings (combineResults rs)) = set (concat (map learnings rs))"
    and "set (sources (combineResults rs)) = set (concat (map sources rs))"
    by (simp_all add: combineResults_def set_arrayFromSet)
  moreover have "length (learnings (combineResults rs)) = card (set (concat (map learnings rs)))"
    and "length (sources (combineResults rs)) = card (set (concat (map sources rs)))"
    by (simp_all add: combineResults_def length_arrayFromSet)
  moreover have "compliance_scores (combineResults rs) =
      Some (concat (map (\<lambda>r. case compliance_scores r of None \<Rightarrow> [] | Some cs \<Rightarrow> cs) rs))"
    by (simp add: combineResults_def)
  ultimately show ?thesis by blast
qed

theorem aggregation_deduplicates_witness:
  "snd (deepResearch (steadyEnv [ask ''A'', ask ''A'', ask ''B'']) ''topic'' 3 1 [] []) =
     Inr \<lparr> learnings = [''A'', ''B''], sources = [''A (/kb)'', ''B (/kb)''],
           compliance_scores = Some [''0.9'', ''0.9''] \<rparr> \<and>
   length (learnings (combineResults
     [\<lparr> learnings = [''A''], sources = [''A (/kb)''], compliance_scores = Some [''0.9''] \<rparr>,
      \<lparr> learnings = [''A''], sources = [''A (/kb)''], compliance_scores = Some [''0.9''] \<rparr>,
      \<lparr> learnings = [''B''], sources = [''B (/kb)''], compliance_scores = None \<rparr>])) = 2"
proof -
  let ?rA = "\<lparr> learnings = [''A''], sources = [''A (/kb)''],
               compliance_scores = Some [''0.9''] \<rparr>"
  let ?rB = "\<lparr> learnings = [''B''], sources = [''B (/kb)''], compliance_scores = None \<rparr>"
  have gen: "generateFollowUpQuestions (steadyEnv [ask ''A'', ask ''A'', ask ''B'']) ''topic''
               (description echoTool) 3 [] = Inr [ask ''A'', ask ''A'', ask ''B'']"
    by (simp add: steady_generate slice0_def)
  have br: "map (branchResult (steadyEnv [ask ''A'', ask ''A'', ask ''B'']) echoTool 3 1 [] [])
              [ask ''A'', ask ''A'', ask ''B''] = map Inr [?rA, ?rA, ?rB]"
    by (simp add: branchResult_leaf [OF echo_A] branchResult_leaf [OF echo_B] formatSource_def)
  have val: "combineResults [?rA, ?rA, ?rB] =
      \<lparr> learnings = [''A'', ''B''], sources = [''A (/kb)'', ''B (/kb)''],
        compliance_scores = Some [''0.9'', ''0.9''] \<rparr>"
    by (simp add: combineResults_def arrayFromSet_def setAdd_def)
  have card2: "card (set (concat (map learnings [?rA, ?rA, ?rB]))) = 2"
    by simp
  from aggregation_deduplicates [OF steady_select gen br] val card2
  show ?thesis by simp
qed

text \<open>
  C5, as amended. For a branch whose tool call succeeds and whose \<open>newDepth\<close> is \<open>0\<close>, the
  result has the parent's learnings followed by the response's content, and the parent's
  sources followed by the \<open>name (path)\<close> strings of the response's citations. Its
  \<open>compliance_scores\<close> is the one-element list of the response's score when the response
  carries a score that is not the empty string; otherwise the field is \<open>undefined\<close>, which
  the aggregation reads as the empty list.
\<close>

theorem leaf_branch_result:
  assumes "execute tool (question q) = Inr r"
    and "d - 1 = 0"
  shows "snd (snd (researchBranch env tool b d ls ss p q)) =
           Inr \<lparr> learnings = ls @ [content r],
                 sources = ss @ (case source r of
                                   None \<Rightarrow> []
                                 | Some cites \<Rightarrow>
                                     map (\<lambda>s. file_name s @ '' ('' @ file_path s @ '')'') cites),
                 compliance_scores =
                   (case compliance_score r of
                      None \<Rightarrow> None
                    | Some s \<Rightarrow> if s = [] then None else Some [s]) \<rparr> \<and>
         compliance_scores (combineResults
             [projr (snd (snd (researchBranch env tool b d ls ss p q)))]) =
           Some (case compliance_score r of
                   None \<Rightarrow> []
                 | Some s \<Rightarrow> if s = [] then [] else [s])"
proof -
  have "d \<le> 1" using assms(2) by simp
  from researchBranch_leaf [OF assms(1) this, of env b ls ss p]
  show ?thesis
    by (cases "source r"; cases "compliance_score r")
       (simp_all add: combineResults_def formatSource_def cong: map_cong)
qed

theorem leaf_branch_result_witness:
  "snd (snd (researchBranch (steadyEnv []) echoTool 2 1 [''known''] [''doc (/kb)'']
               (initialProgress 2 1) (ask ''A''))) =
     Inr \<lparr> learnings = [''known'', ''A''], sources = [''doc (/kb)'', ''A (/kb)''],
           compliance_scores = Some [''0.9''] \<rparr>"
proof -
  have d: "(1::int) - 1 = 0" by simp
  from leaf_branch_result [OF echo_A d, of "steadyEnv []" 2 "[''known'']" "[''doc (/kb)'']"
      "initialProgress 2 1"]
  show ?thesis by simp
qed

text \<open>
  C5 as stated fails on a response that carries the empty string as its score: the
  claim gives the leaf the scores \<open>['''']\<close>, the code leaves the field undefined.
\<close>

theorem leaf_branch_result_counterexample:
  "execute echoTool (question (ask ''B'')) =
     Inr \<lparr> content = ''B'', source = Some [\<lparr> file_name = ''B'', file_path = ''/kb'' \<rparr>],
           compliance_score = Some '''' \<rparr> \<and>
   snd (snd (researchBranch (steadyEnv []) echoTool 2 1 [''known''] [''doc (/kb)'']
               (initialProgress 2 1) (ask ''B''))) =
     Inr \<lparr> learnings = [''known'', ''B''], sources = [''doc (/kb)'', ''B (/kb)''],
           compliance_scores = None \<rparr> \<and>
   snd (snd (researchBranch (steadyEnv []) echoTool 2 1 [''known''] [''doc (/kb)'']
               (initialProgress 2 1) (ask ''B''))) \<noteq>
     Inr \<lparr> learnings = [''known'', ''B''], sources = [''doc (/kb)'', ''B (/kb)''],
           compliance_scores = Some [''''] \<rparr>"
proof -
  have d: "(1::int) \<le> 1" by simp
  show ?thesis
    by (simp add: echo_B researchBranch_leaf [OF echo_B d] formatSource_def)
qed

text \<open>
  C6, as amended. A branch whose tool call succeeds and whose decremented depth is
  positive calls \<open>deepResearch\<close> with breadth \<open>ceil(breadth / 2)\<close>, and these are the only
  recursive calls a branch makes; the snapshot it reports before the call and the first
  snapshot of the call show that breadth. With a breadth of at least \<open>1\<close> at the root the
  breadth of a call is at least \<open>1\<close> and at most the breadth of the call that made it,
  and every snapshot of the run shows breadths between \<open>1\<close> and the root's, whatever the
  depth. The depth of the recursive call is \<open>depth - 1\<close> for an integer depth up to
  \<open>2 ^ 53\<close>, where the source computes \<open>depth - 1\<close> exactly.
\<close>

theorem child_breadth_is_halved:
  "(execute tool (question q) = Inr r \<and> 1 < d \<and> d \<le> 2 ^ 53 \<longrightarrow>
      deepResearch_researchBranch_rel
        (Inl (env, followUpQuery r q, \<lceil>real_of_int b / 2\<rceil>, d - 1, ls @ [content r],
              ss @ (case source r of None \<Rightarrow> [] | Some xs \<Rightarrow> map formatSource xs)))
        (Inr (env, tool, b, d, ls, ss, p, q)) \<and>
      jsMinusOne d = d - 1 \<and>
      researchBranch env tool b d ls ss p q =
        (p\<lparr> currentDepth := d - 1, currentBreadth := \<lceil>real_of_int b / 2\<rceil>,
            completedQueries := completedQueries p + 1,
            currentQuery := Some (question q) \<rparr>,
         p\<lparr> currentDepth := d - 1, currentBreadth := \<lceil>real_of_int b / 2\<rceil>,
            completedQueries := completedQueries p + 1,
            currentQuery := Some (question q) \<rparr> #
           fst (deepResearch env (followUpQuery r q) \<lceil>real_of_int b / 2\<rceil> (d - 1)
                  (ls @ [content r])
                  (ss @ (case source r of None \<Rightarrow> [] | Some xs \<Rightarrow> map formatSource xs))),
         snd (deepResearch env (followUpQuery r q) \<lceil>real_of_int b / 2\<rceil> (d - 1)
                (ls @ [content r])
                (ss @ (case source r of None \<Rightarrow> [] | Some xs \<Rightarrow> map formatSource xs))))) \<and>
   (deepResearch_researchBranch_rel (Inl (env', query', b', d', ls', ss'))
      (Inr (env, tool, b, d, ls, ss, p, q)) \<longrightarrow>
      b' = \<lceil>real_of_int b / 2\<rceil> \<and> (1 \<le> b \<longrightarrow> 1 \<le> b' \<and> b' \<le> b) \<and>
      (d \<le> 2 ^ 53 \<longrightarrow> d' = d - 1 \<and> d' = jsMinusOne d)) \<and>
   (fst (deepResearch env query b d ls ss) = [] \<or>
    (totalBreadth (hd (fst (deepResearch env query b d ls ss))) = b \<and>
     currentBreadth (hd (fst (deepResearch env query b d ls ss))) = b \<and>
     totalDepth (hd (fst (deepResearch env query b d ls ss))) = d \<and>
     currentDepth (hd (fst (deepResearch env query b d ls ss))) = d)) \<and>
   (1 \<le> b \<and> deepResearchFuel n env query b d ls ss = Some (seen, res) \<longrightarrow>
      (\<forall>s \<in> set seen. breadthWithin b s)) \<and>
   (1 \<le> b \<and> d \<le> 2 ^ 53 \<longrightarrow>
      (\<forall>s \<in> set (fst (deepResearch env query b d ls ss)). breadthWithin b s))"
proof (intro conjI impI)
  assume h: "execute tool (question q) = Inr r \<and> 1 < d \<and> d \<le> 2 ^ 53"
  then have ex: "execute tool (question q) = Inr r" and d: "1 < d" and r: "d \<le> 2 ^ 53"
    by simp_all
  from branch_makes_call [OF ex d]
  show "deepResearch_researchBranch_rel
        (Inl (env, followUpQuery r q, \<lceil>real_of_int b / 2\<rceil>, d - 1, ls @ [content r],
              ss @ (case source r of None \<Rightarrow> [] | Some xs \<Rightarrow> map formatSource xs)))
        (Inr (env, tool, b, d, ls, ss, p, q))"
    by (simp add: ceilHalf_ceiling)
  show "jsMinusOne d = d - 1" by (rule jsMinusOne_exact [OF d r])
  from researchBranch_descend [OF ex d]
  show "researchBranch env tool b d ls ss p q =
        (p\<lparr> currentDepth := d - 1, currentBreadth := \<lceil>real_of_int b / 2\<rceil>,
            completedQueries := completedQueries p + 1,
            currentQuery := Some (question q) \<rparr>,
         p\<lparr> currentDepth := d - 1, currentBreadth := \<lceil>real_of_int b / 2\<rceil>,
            completedQueries := completedQueries p + 1,
            currentQuery := Some (question q) \<rparr> #
           fst (deepResearch env (followUpQuery r q) \<lceil>real_of_int b / 2\<rceil> (d - 1)
                  (ls @ [content r])
                  (ss @ (case source r of None \<Rightarrow> [] | Some xs \<Rightarrow> map formatSource xs))),
         snd (deepResearch env (followUpQuery r q) \<lceil>real_of_int b / 2\<rceil> (d - 1)
                (ls @ [content r])
                (ss @ (case source r of None \<Rightarrow> [] | Some xs \<Rightarrow> map formatSource xs))))"
    by (simp add: ceilHalf_ceiling)
next
  assume c: "deepResearch_researchBranch_rel (Inl (env', query', b', d', ls', ss'))
      (Inr (env, tool, b, d, ls, ss, p, q))"
  from call_made_by_branch [OF c] have b': "b' = ceilHalf b" and d': "d' = d - 1"
    and d: "1 < d" by auto
  from b' show "b' = \<lceil>real_of_int b / 2\<rceil>" by (simp add: ceilHalf_ceiling)
  {
    assume "1 \<le> b"
    from ceilHalf_bounds [OF this] b' show "1 \<le> b'" and "b' \<le> b" by simp_all
  }
  {
    assume "d \<le> 2 ^ 53"
    from d' show "d' = d - 1" .
    from jsMinusOne_exact [OF d \<open>d \<le> 2 ^ 53\<close>] d' show "d' = jsMinusOne d" by simp
  }
next
  show "fst (deepResearch env query b d ls ss) = [] \<or>
    (totalBreadth (hd (fst (deepResearch env query b d ls ss))) = b \<and>
     currentBreadth (hd (fst (deepResearch env query b d ls ss))) = b \<and>
     totalDepth (hd (fst (deepResearch env query b d ls ss))) = d \<and>
     currentDepth (hd (fst (deepResearch env query b d ls ss))) = d)"
    by (rule first_snapshot)
next
  assume "1 \<le> b \<and> deepResearchFuel n env query b d ls ss = Some (seen, res)"
  then show "\<forall>s \<in> set seen. breadthWithin b s"
    using deepResearchFuel_breadth by blast
next
  assume "1 \<le> b \<and> d \<le> 2 ^ 53"
  then show "\<forall>s \<in> set (fst (deepResearch env query b d ls ss)). breadthWithin b s"
    using deepResearch_breadth by blast
qed

theorem child_breadth_is_halved_witness:
  "map (\<lambda>s. (totalBreadth s, currentBreadth s, totalDepth s, currentDepth s))
     (fst (deepResearch (steadyEnv [ask ''Q'']) ''topic'' 3 2 [] [])) =
     [(3, 3, 2, 2), (3, 2, 2, 1), (2, 2, 1, 1), (2, 2, 1, 0)] \<and>
   deepResearch_researchBranch_rel
     (Inl (steadyEnv [ask ''Q''],
           followUpQuery \<lparr> content = ''Q'',
                             source = Some [\<lparr> file_name = ''Q'', file_path = ''/kb'' \<rparr>],
                             compliance_score = None \<rparr> (ask ''Q''),
           2, 1, [''Q''], [''Q (/kb)'']))
     (Inr (steadyEnv [ask ''Q''], echoTool, 3, 2, [], [], initialProgress 3 2, ask ''Q'')) \<and>
   (2::int) = \<lceil>real_of_int 3 / 2\<rceil> \<and> (1::int) = jsMinusOne 2 \<and>
   list_all (breadthWithin 3) (fst (deepResearch (steadyEnv [ask ''Q'']) ''topic'' 3 2 [] [])) \<and>
   deepResearchFuel 2 (steadyEnv [ask ''Q'']) ''topic'' 3 2 [] [] =
     Some (deepResearch (steadyEnv [ask ''Q'']) ''topic'' 3 2 [] [])"
proof -
  let ?env = "steadyEnv [ask ''Q'']"
  let ?r = "\<lparr> content = ''Q'', source = Some [\<lparr> file_name = ''Q'', file_path = ''/kb'' \<rparr>],
              compliance_score = None \<rparr>"
  have d2: "(1::int) < 2" and d1: "(1::int) \<le> 1" and r: "(2::int) \<le> 2 ^ 53"
    and b: "(1::int) \<le> 3"
    by simp_all
  have run: "map (\<lambda>s. (totalBreadth s, currentBreadth s, totalDepth s, currentDepth s))
     (fst (deepResearch ?env ''topic'' 3 2 [] [])) =
     [(3, 3, 2, 2), (3, 2, 2, 1), (2, 2, 1, 1), (2, 2, 1, 0)]"
    by (simp add: deepResearch_observed steady_select steady_generate slice0_def ceilHalf_def
          researchBranch_descend [OF echo_Q d2] researchBranch_leaf [OF echo_Q d1]
          initialProgress_def)
  have fuel: "deepResearchFuel 2 ?env ''topic'' 3 2 [] [] =
                Some (deepResearch ?env ''topic'' 3 2 [] [])"
    by (rule fuel_agrees) simp_all
  then have fuel': "deepResearchFuel 2 ?env ''topic'' 3 2 [] [] =
      Some (fst (deepResearch ?env ''topic'' 3 2 [] []),
            snd (deepResearch ?env ''topic'' 3 2 [] []))"
    by simp
  note inst = child_breadth_is_halved
      [where tool = echoTool and q = "ask ''Q''" and r = ?r and d = 2 and env = ?env
         and b = 3 and ls = "[]" and ss = "[]" and p = "initialProgress 3 2"
         and query = "''topic''" and n = 2
         and seen = "fst (deepResearch ?env ''topic'' 3 2 [] [])"
         and res = "snd (deepResearch ?env ''topic'' 3 2 [] [])"
         and env' = ?env and query' = "followUpQuery ?r (ask ''Q'')" and b' = 2 and d' = 1
         and ls' = "[''Q'']" and ss' = "[''Q (/kb)'']"]
  from inst echo_Q d2 r b fuel'
  have rel: "deepResearch_researchBranch_rel
     (Inl (?env, followUpQuery ?r (ask ''Q''), \<lceil>real_of_int 3 / 2\<rceil>, 2 - 1, [] @ [content ?r],
           [] @ (case source ?r of None \<Rightarrow> [] | Some xs \<Rightarrow> map formatSource xs)))
     (Inr (?env, echoTool, 3, 2, [], [], initialProgress 3 2, ask ''Q''))"
    and dec: "jsMinusOne 2 = 2 - 1"
    and within: "\<forall>s \<in> set (fst (deepResearch ?env ''topic'' 3 2 [] [])). breadthWithin 3 s"
    by blast+
  have half: "\<lceil>real_of_int 3 / 2\<rceil> = (2::int)" by (simp add: ceilHalf_ceiling [symmetric] ceilHalf_def)
  from rel have rel': "deepResearch_researchBranch_rel
     (Inl (?env, followUpQuery ?r (ask ''Q''), 2, 1, [''Q''], [''Q (/kb)'']))
     (Inr (?env, echoTool, 3, 2, [], [], initialProgress 3 2, ask ''Q''))"
    by (simp add: half formatSource_def)
  from within have "list_all (breadthWithin 3) (fst (deepResearch ?env ''topic'' 3 2 [] []))"
    by (simp add: list_all_iff)
  with run rel' dec fuel half show ?thesis by simp
qed

text \<open>
  C6 as stated fails for a depth beyond \<open>2 ^ 53\<close>: at depth \<open>2 ^ 53 + 2\<close> the source
  computes \<open>depth - 1\<close> as \<open>2 ^ 53\<close>, and the branch reports that depth before it makes its
  recursive call (whose question generation then fails, which ends the run).
\<close>

theorem child_depth_counterexample:
  "map_option (\<lambda>run. (map currentDepth (fst run), map currentBreadth (fst run), snd run))
     (deepResearchFuel 2 (brittleEnv [ask ''Q'']) ''topic'' 3 9007199254740994 [] []) =
     Some ([9007199254740994, 9007199254740992], [3, 2],
           Inl (OracleFailure ''no object generated'')) \<and>
   jsMinusOne 9007199254740994 = 9007199254740992 \<and>
   (9007199254740992 :: int) \<noteq> 9007199254740994 - 1"
proof -
  have two: "(2::nat) = Suc (Suc 0)" by simp
  have "map_option (\<lambda>run. (map currentDepth (fst run), map currentBreadth (fst run), snd run))
     (deepResearchFuel 2 (brittleEnv [ask ''Q'']) ''topic'' 3 9007199254740994 [] []) =
     Some ([9007199254740994, 9007199254740992], [3, 2],
           Inl (OracleFailure ''no object generated''))"
    unfolding two
    by (simp add: deepResearchFuel.simps(2) researchBranchFuel.simps brittle_select
          brittle_generate slice0_def reportProgress_def echo_Q processAgentResponse_def
          jsMinusOne_skips ceilHalf_def Let_def initialProgress_def)
  then show ?thesis by (simp add: jsMinusOne_skips)
qed

text \<open>
  C7, as amended. For an integer depth up to \<open>2 ^ 53\<close> the recursion terminates: the
  engine with the source's arithmetic returns within \<open>max 1 depth\<close> nested calls, and
  returns what \<open>deepResearch\<close> returns. Every recursive call that a branch makes has the
  depth decreased by exactly \<open>1\<close>, which is what the source computes as \<open>depth - 1\<close>, and
  that depth is positive; a branch whose tool call succeeds makes the call whenever the
  decreased depth is positive; a branch at depth \<open>1\<close> or less makes no call; and a call
  of \<open>deepResearch\<close> runs its branches at its own depth.
\<close>

theorem recursion_descends_and_stops:
  "(d \<le> 2 ^ 53 \<and> nat d \<le> n \<and> 0 < n \<longrightarrow>
      deepResearchFuel n env query b d ls ss = Some (deepResearch env query b d ls ss)) \<and>
   (d \<le> 2 ^ 53 \<and>
    deepResearch_researchBranch_rel (Inl (env', query', b', d', ls', ss'))
      (Inr (env, tool, b, d, ls, ss, p, q)) \<longrightarrow>
      d' = d - 1 \<and> d' = jsMinusOne d \<and> 0 < d') \<and>
   (execute tool (question q) = Inr r \<and> 1 < d \<and> d \<le> 2 ^ 53 \<longrightarrow>
      deepResearch_researchBranch_rel
        (Inl (env, followUpQuery r q, ceilHalf b, d - 1, ls @ [content r],
              ss @ (case source r of None \<Rightarrow> [] | Some xs \<Rightarrow> map formatSource xs)))
        (Inr (env, tool, b, d, ls, ss, p, q))) \<and>
   (d \<le> 1 \<longrightarrow>
      \<not> deepResearch_researchBranch_rel x (Inr (env, tool, b, d, ls, ss, p, q)) \<and>
      jsMinusOne d \<le> 0) \<and>
   (deepResearch_researchBranch_rel y (Inl (env, query, b, d, ls, ss)) \<longrightarrow>
      (\<exists>tool' p' q'. y = Inr (env, tool', b, d, ls, ss, p', q')))"
proof (intro conjI impI)
  assume "d \<le> 2 ^ 53 \<and> nat d \<le> n \<and> 0 < n"
  then show "deepResearchFuel n env query b d ls ss = Some (deepResearch env query b d ls ss)"
    by (simp add: fuel_agrees)
next
  assume h: "d \<le> 2 ^ 53 \<and>
    deepResearch_researchBranch_rel (Inl (env', query', b', d', ls', ss'))
      (Inr (env, tool, b, d, ls, ss, p, q))"
  then have c: "deepResearch_researchBranch_rel (Inl (env', query', b', d', ls', ss'))
      (Inr (env, tool, b, d, ls, ss, p, q))" and r: "d \<le> 2 ^ 53"
    by simp_all
  from call_made_by_branch [OF c] have d': "d' = d - 1" and d: "1 < d" by auto
  from d' show "d' = d - 1" .
  from jsMinusOne_exact [OF d r] d' show "d' = jsMinusOne d" by simp
  from d d' show "0 < d'" by simp
next
  assume "execute tool (question q) = Inr r \<and> 1 < d \<and> d \<le> 2 ^ 53"
  then show "deepResearch_researchBranch_rel
        (Inl (env, followUpQuery r q, ceilHalf b, d - 1, ls @ [content r],
              ss @ (case source r of None \<Rightarrow> [] | Some xs \<Rightarrow> map formatSource xs)))
        (Inr (env, tool, b, d, ls, ss, p, q))"
    by (simp add: branch_makes_call)
next
  assume d: "d \<le> 1"
  show "\<not> deepResearch_researchBranch_rel x (Inr (env, tool, b, d, ls, ss, p, q))"
    by (rule leaf_branch_makes_no_call [OF d])
  show "jsMinusOne d \<le> 0" by (rule jsMinusOne_leaf [OF d])
next
  assume "deepResearch_researchBranch_rel y (Inl (env, query, b, d, ls, ss))"
  from branch_run_by_node [OF this]
  show "\<exists>tool' p' q'. y = Inr (env, tool', b, d, ls, ss, p', q')" by blast
qed

theorem recursion_descends_and_stops_witness:
  "deepResearchFuel 2 (steadyEnv [ask ''Q'']) ''topic'' 3 2 [] [] =
     Some (deepResearch (steadyEnv [ask ''Q'']) ''topic'' 3 2 [] []) \<and>
   deepResearchFuel 1 (steadyEnv [ask ''Q'']) ''topic'' 3 2 [] [] = None \<and>
   map totalDepth (fst (deepResearch (steadyEnv [ask ''Q'']) ''topic'' 3 2 [] [])) =
     [2, 2, 1, 1] \<and>
   deepResearch_researchBranch_rel
     (Inr (steadyEnv [ask ''Q''], echoTool, 3, 2, [], [], initialProgress 3 2, ask ''Q''))
     (Inl (steadyEnv [ask ''Q''], ''topic'', 3, 2, [], [])) \<and>
   deepResearch_researchBranch_rel
     (Inl (steadyEnv [ask ''Q''],
           followUpQuery \<lparr> content = ''Q'',
                             source = Some [\<lparr> file_name = ''Q'', file_path = ''/kb'' \<rparr>],
                             compliance_score = None \<rparr> (ask ''Q''),
           2, 1, [''Q''], [''Q (/kb)'']))
     (Inr (steadyEnv [ask ''Q''], echoTool, 3, 2, [], [], initialProgress 3 2, ask ''Q'')) \<and>
   (1::int) = 2 - 1 \<and> (1::int) = jsMinusOne 2 \<and> (0::int) < 1 \<and>
   \<not> deepResearch_researchBranch_rel
       (Inl (steadyEnv [ask ''Q''], ''next'', 1, 0, [''Q'', ''Q''], []))
       (Inr (steadyEnv [ask ''Q''], echoTool, 2, 1, [''Q''], [], initialProgress 2 1,
             ask ''Q'')) \<and>
   jsMinusOne 1 \<le> 0"
proof -
  let ?env = "steadyEnv [ask ''Q'']"
  let ?r = "\<lparr> content = ''Q'', source = Some [\<lparr> file_name = ''Q'', file_path = ''/kb'' \<rparr>],
              compliance_score = None \<rparr>"
  have d2: "(1::int) < 2" and d1: "(1::int) \<le> 1" and r: "(2::int) \<le> 2 ^ 53"
    by simp_all
  have run: "map totalDepth (fst (deepResearch ?env ''topic'' 3 2 [] [])) = [2, 2, 1, 1]"
    by (simp add: deepResearch_observed steady_select steady_generate slice0_def ceilHalf_def
          researchBranch_descend [OF echo_Q d2] researchBranch_leaf [OF echo_Q d1]
          initialProgress_def)
  have one: "(1::nat) = Suc 0" by simp
  have short: "deepResearchFuel 1 ?env ''topic'' 3 2 [] [] = None"
    unfolding one
    by (simp add: deepResearchFuel.simps(2) researchBranchFuel.simps steady_select
          steady_generate slice0_def reportProgress_def echo_Q processAgentResponse_def
          jsMinusOne_exact [OF d2 r] Let_def)
  have gen: "generateFollowUpQuestions ?env ''topic'' (description echoTool) 3 [] =
               Inr [ask ''Q'']"
    by (simp add: steady_generate slice0_def)
  have mem: "ask ''Q'' \<in> set [ask ''Q'']" by simp
  have node: "deepResearch_researchBranch_rel
     (Inr (?env, echoTool, 3, 2, [], [], initialProgress 3 2, ask ''Q''))
     (Inl (?env, ''topic'', 3, 2, [], []))"
    by (rule node_runs_branch [OF steady_select gen mem])
  note root = recursion_descends_and_stops
      [where d = 2 and n = 2 and env = ?env and query = "''topic''" and b = 3 and ls = "[]"
         and ss = "[]" and tool = echoTool and q = "ask ''Q''" and r = ?r
         and p = "initialProgress 3 2"
         and env' = ?env and query' = "followUpQuery ?r (ask ''Q'')" and b' = 2 and d' = 1
         and ls' = "[''Q'']" and ss' = "[''Q (/kb)'']"
         and y = "Inr (?env, echoTool, 3, 2, [], [], initialProgress 3 2, ask ''Q'')"]
  note leaf = recursion_descends_and_stops
      [where d = 1 and env = ?env and tool = echoTool and b = 2 and ls = "[''Q'']"
         and ss = "[]" and p = "initialProgress 2 1" and q = "ask ''Q''"
         and x = "Inl (?env, ''next'', 1, 0, [''Q'', ''Q''], [])"]
  from root r have fuel: "deepResearchFuel 2 ?env ''topic'' 3 2 [] [] =
                            Some (deepResearch ?env ''topic'' 3 2 [] [])"
    by simp
  from root echo_Q d2 r have "deepResearch_researchBranch_rel
        (Inl (?env, followUpQuery ?r (ask ''Q''), ceilHalf 3, 2 - 1, [] @ [content ?r],
              [] @ (case source ?r of None \<Rightarrow> [] | Some xs \<Rightarrow> map formatSource xs)))
        (Inr (?env, echoTool, 3, 2, [], [], initialProgress 3 2, ask ''Q''))"
    by blast
  then have call: "deepResearch_researchBranch_rel
     (Inl (?env, followUpQuery ?r (ask ''Q''), 2, 1, [''Q''], [''Q (/kb)'']))
     (Inr (?env, echoTool, 3, 2, [], [], initialProgress 3 2, ask ''Q''))"
    by (simp add: ceilHalf_def formatSource_def)
  from root call r have dec: "(1::int) = 2 - 1 \<and> 1 = jsMinusOne 2 \<and> (0::int) < 1"
    by blast
  from leaf d1 have stop: "\<not> deepResearch_researchBranch_rel
       (Inl (?env, ''next'', 1, 0, [''Q'', ''Q''], []))
       (Inr (?env, echoTool, 2, 1, [''Q''], [], initialProgress 2 1, ask ''Q'')) \<and>
     jsMinusOne 1 \<le> 0"
    by blast
  from fuel short run node call dec stop show ?thesis by blast
qed

text \<open>
  C7 as stated fails for a depth beyond \<open>2 ^ 53\<close>: at depth \<open>2 ^ 53 + 4\<close> the source
  computes \<open>depth - 1\<close> as \<open>depth\<close> itself, the recursive call is made with the same
  depth, and with a tool and an oracle that always answer the recursion does not come to
  an end, whatever the number of nested calls allowed.
\<close>

theorem recursion_never_ends_counterexample:
  "jsMinusOne 9007199254740996 = 9007199254740996 \<and>
   (0::int) < jsMinusOne 9007199254740996 \<and>
   (\<forall>n. deepResearchFuel n (steadyEnv [ask ''Q'']) ''topic'' 1 9007199254740996 [] [] = None)"
  by (simp add: jsMinusOne_stuck never_returns)

text \<open>
  C9. With the branch results \<open>rs\<close> taken in the order of the follow-up questions, the
  aggregated learnings and sources are the concatenated learnings and sources with
  every string kept at its first occurrence and dropped afterwards: the result is a
  function of \<open>rs\<close> and keeps first-occurrence order.
\<close>

theorem aggregation_keeps_first_occurrences:
  assumes "determineResearchTool env query = Inr (Some tool, why)"
    and "generateFollowUpQuestions env query (description tool) b ls = Inr qs"
    and "map (branchResult env tool b d ls ss) qs = map Inr rs"
  shows "snd (deepResearch env query b d ls ss) =
           Inr \<lparr> learnings = firstOccurrences (concat (map learnings rs)),
                 sources = firstOccurrences (concat (map sources rs)),
                 compliance_scores =
                   Some (concat (map (\<lambda>r. case compliance_scores r of None \<Rightarrow> []
                                          | Some cs \<Rightarrow> cs) rs)) \<rparr>"
  using deepResearch_joined [OF assms]
  by (simp add: combineResults_def arrayFromSet_firstOccurrences)

theorem aggregation_keeps_first_occurrences_witness:
  "snd (deepResearch (steadyEnv [ask ''B'', ask ''A'', ask ''B'', ask ''A'']) ''topic'' 4 1
          [''known''] []) =
     Inr \<lparr> learnings = [''known'', ''B'', ''A''], sources = [''B (/kb)'', ''A (/kb)''],
           compliance_scores = Some [''0.9'', ''0.9''] \<rparr>"
proof -
  let ?qs = "[ask ''B'', ask ''A'', ask ''B'', ask ''A'']"
  let ?rA = "\<lparr> learnings = [''known'', ''A''], sources = [''A (/kb)''],
               compliance_scores = Some [''0.9''] \<rparr>"
  let ?rB = "\<lparr> learnings = [''known'', ''B''], sources = [''B (/kb)''],
               compliance_scores = None \<rparr>"
  have gen: "generateFollowUpQuestions (steadyEnv ?qs) ''topic''
               (description echoTool) 4 [''known''] = Inr ?qs"
    by (simp add: steady_generate slice0_def)
  have br: "map (branchResult (steadyEnv ?qs) echoTool 4 1 [''known''] []) ?qs =
              map Inr [?rB, ?rA, ?rB, ?rA]"
    by (simp add: branchResult_leaf [OF echo_A] branchResult_leaf [OF echo_B] formatSource_def)
  from aggregation_keeps_first_occurrences [OF steady_select gen br]
  show ?thesis by simp
qed

text \<open>
  C10. When the tool call of every follow-up question fails, and in particular when
  there is no follow-up question at all, \<open>deepResearch\<close> resolves to empty learnings,
  empty sources and empty compliance scores, whatever learnings and sources it was
  called with.
\<close>

theorem all_branches_failed_gives_empty:
  assumes "determineResearchTool env query = Inr (Some tool, why)"
    and "generateFollowUpQuestions env query (description tool) b ls = Inr qs"
    and "\<forall>q \<in> set qs. \<exists>e. execute tool (question q) = Inl e"
  shows "snd (deepResearch env query b d ls ss) =
           Inr \<lparr> learnings = [], sources = [], compliance_scores = Some [] \<rparr>"
proof -
  have "\<forall>q \<in> set qs. branchResult env tool b d ls ss q = Inr emptyResult"
    using assms(3) branchResult_failed by blast
  then have "map (branchResult env tool b d ls ss) qs = map (\<lambda>_. Inr emptyResult) qs"
    by simp
  then have "map (branchResult env tool b d ls ss) qs = map Inr (replicate (length qs) emptyResult)"
    by (simp add: map_replicate_const)
  from deepResearch_joined [OF assms(1,2) this]
  show ?thesis by (simp add: combineResults_empty) (simp add: emptyResult_def)
qed

theorem all_branches_failed_gives_empty_witness:
  "snd (deepResearch (steadyEnv [ask ''bad'', ask ''bad'']) ''topic'' 2 3
          [''known''] [''doc (/kb)'']) =
     Inr \<lparr> learnings = [], sources = [], compliance_scores = Some [] \<rparr> \<and>
   generateFollowUpQuestions (steadyEnv [ask ''A'', ask ''B'']) ''topic''
     (description echoTool) 0 [''known''] = Inr [] \<and>
   snd (deepResearch (steadyEnv [ask ''A'', ask ''B'']) ''topic'' 0 3
          [''known''] [''doc (/kb)'']) =
     Inr \<lparr> learnings = [], sources = [], compliance_scores = Some [] \<rparr>"
proof -
  have gen: "generateFollowUpQuestions (steadyEnv [ask ''bad'', ask ''bad'']) ''topic''
               (description echoTool) 2 [''known''] = Inr [ask ''bad'', ask ''bad'']"
    by (simp add: steady_generate slice0_def)
  have bad: "\<forall>q \<in> set [ask ''bad'', ask ''bad'']. \<exists>e. execute echoTool (question q) = Inl e"
    by (simp add: echo_bad)
  have gen0: "generateFollowUpQuestions (steadyEnv [ask ''A'', ask ''B'']) ''topic''
                (description echoTool) 0 [''known''] = Inr []"
    by (simp add: steady_generate slice0_def)
  have none: "\<forall>q \<in> set ([] :: FollowUp list). \<exists>e. execute echoTool (question q) = Inl e"
    by simp
  from all_branches_failed_gives_empty [OF steady_select gen bad, of 3 "[''doc (/kb)'']"]
       all_branches_failed_gives_empty [OF steady_select gen0 none, of 3 "[''doc (/kb)'']"]
       gen0
  show ?thesis by simp
qed

end
